theory Spec2Isabelle
  imports Main "HOL-Library.Multiset"
begin

section \<open>The etcd backend of rdns-server\<close>

text \<open>
  A shallow embedding of package \<open>etcd\<close> (the backend operator of rdns-server).
  Strings are byte lists; the double quote of the JSON wrappers is \<open>CHR 0x22\<close>.
\<close>

subsection \<open>String helpers of the Go standard library\<close>

text \<open>\<open>strings.Split(s, sep)\<close> for a one-byte separator: never returns the empty list.\<close>

fun Split :: "string \<Rightarrow> char \<Rightarrow> string list" where
  "Split [] c = [[]]"
| "Split (x # xs) c =
     (if x = c then [] # Split xs c
      else (case Split xs c of [] \<Rightarrow> [[x]] | y # ys \<Rightarrow> (x # y) # ys))"

text \<open>\<open>strings.Join(elems, sep)\<close>.\<close>

fun Join :: "string list \<Rightarrow> string \<Rightarrow> string" where
  "Join [] sep = []"
| "Join [x] sep = x"
| "Join (x # y # ys) sep = x @ sep @ Join (y # ys) sep"

text \<open>\<open>strings.Replace(s, old, new, -1)\<close> for one-byte \<open>old\<close> and \<open>new\<close>.\<close>

definition Replace :: "string \<Rightarrow> char \<Rightarrow> char \<Rightarrow> string" where
  "Replace s old new = map (\<lambda>c. if c = old then new else c) s"

text \<open>\<open>strings.Contains(s, substr)\<close>.\<close>

fun Contains :: "string \<Rightarrow> string \<Rightarrow> bool" where
  "Contains [] sub = (sub = [])"
| "Contains (c # s) sub = (take (length sub) (c # s) = sub \<or> Contains s sub)"

subsection \<open>Constants\<close>

definition dq :: char where "dq = CHR 0x22"

definition ValueHostKey :: string where "ValueHostKey = ''host''"
definition ValueTextKey :: string where "ValueTextKey = ''text''"
definition maxSlugHashTimes :: nat where "maxSlugHashTimes = 100"
definition tokenOriginPath_root :: string where "tokenOriginPath_root = ''/token_origin''"
definition slugLength :: nat where "slugLength = 6"
definition tokenOriginLength :: nat where "tokenOriginLength = 32"

subsection \<open>Path encoder\<close>

text \<open>
  The in-place reversal loop of \<open>convertToPath\<close>:
  \<open>for i := 0; i < len(ss)/2; i++ { ss[i], ss[last-i] = ss[last-i], ss[i] }\<close>
  with \<open>last = len(ss) - 1\<close>. Both indices are in range whenever the body runs.
\<close>

definition swap_at :: "nat \<Rightarrow> string list \<Rightarrow> string list" where
  "swap_at i ss = (let last = length ss - 1 in ss[i := ss ! (last - i), last - i := ss ! i])"

definition reverse_loop :: "string list \<Rightarrow> string list" where
  "reverse_loop ss = fold swap_at [0 ..< length ss div 2] ss"

definition convertToPath :: "string \<Rightarrow> string" where
  "convertToPath domain = ''/'' @ Join (reverse_loop (Split domain CHR ''.'')) ''/''"

definition formatKey :: "string \<Rightarrow> string" where
  "formatKey key = Replace key CHR ''.'' CHR ''_''"

definition tokenOriginPath :: "string \<Rightarrow> string" where
  "tokenOriginPath domainName = tokenOriginPath_root @ ''/'' @ formatKey domainName"

text \<open>
  The inverse substitution the specification calls \<open>decodeTokenPath\<close>; the source has
  no such function. It takes the final \<open>/\<close>-separated segment of a token path and
  replaces every \<open>_\<close> by \<open>.\<close>.
\<close>

definition final_segment :: "string \<Rightarrow> string" where
  "final_segment p = rev (takeWhile (\<lambda>c. c \<noteq> CHR ''/'') (rev p))"

definition decodeTokenPath :: "string \<Rightarrow> string" where
  "decodeTokenPath p = Replace (final_segment p) CHR ''_'' CHR ''.''"

subsection \<open>Data model\<close>

text \<open>
  \<open>model.DomainOptions\<close> and \<open>model.Domain\<close> with the fields the backend reads and
  writes. A nil slice is the empty list; \<open>Expiration\<close> is a pointer to a time, a point
  in time being a number of seconds.
\<close>

record DomainOptions =
  oFqdn :: string
  oHosts :: "string list"
  oText :: string

record Domain =
  Fqdn :: string
  Hosts :: "string list"
  Text :: string
  Expiration :: "nat option"

text \<open>
  Errors: an error of the etcd server with its code (\<open>client.Error\<close>; code 100 is
  \<open>ErrorCodeKeyNotFound\<close>), any other failure of a request, and a failure of
  \<open>json.Unmarshal\<close>.
\<close>

datatype error = EtcdError nat | TransportError | JsonError

definition IsKeyNotFound :: "error \<Rightarrow> bool" where
  "IsKeyNotFound err = (err = EtcdError 100)"

text \<open>The option structs and the response node of the etcd v2 client.\<close>

datatype PrevExistType = PrevIgnore | PrevExist | PrevNoExist

record SetOptions =
  so_TTL :: nat
  so_Dir :: bool
  so_PrevExist :: PrevExistType

record GetOptions =
  go_Recursive :: bool
  go_Sort :: bool

record DeleteOptions =
  do_Dir :: bool
  do_Recursive :: bool

definition nilSetOptions :: SetOptions where
  "nilSetOptions = \<lparr>so_TTL = 0, so_Dir = False, so_PrevExist = PrevIgnore\<rparr>"

definition nilGetOptions :: GetOptions where
  "nilGetOptions = \<lparr>go_Recursive = False, go_Sort = False\<rparr>"

definition nilDeleteOptions :: DeleteOptions where
  "nilDeleteOptions = \<lparr>do_Dir = False, do_Recursive = False\<rparr>"

datatype node =
  Node (nKey: string) (nDir: bool) (nValue: string) (nExpiration: "nat option") (nNodes: "node list")

text \<open>
  The backend operator together with the collaborators that live outside the package:
  the three calls of \<open>client.KeysAPI\<close> acting on a world state \<open>'s\<close> (a call returns
  either an error or a response node, never both), the two random string generators of
  package \<open>util\<close>, \<open>json.Unmarshal\<close> into a \<open>map[string]string\<close> (an association
  list), and the order in which a \<open>range\<close> statement visits the keys of a map.
\<close>

record 's BackendOperator =
  kapi_Get :: "string \<Rightarrow> GetOptions \<Rightarrow> 's \<Rightarrow> (error + node) \<times> 's"
  kapi_Set :: "string \<Rightarrow> string \<Rightarrow> SetOptions \<Rightarrow> 's \<Rightarrow> (error + node) \<times> 's"
  kapi_Delete :: "string \<Rightarrow> DeleteOptions \<Rightarrow> 's \<Rightarrow> (error + node) \<times> 's"
  prePath :: string
  duration :: nat
  rootDomain :: string
  RandStringWithSmall :: "nat \<Rightarrow> 's \<Rightarrow> string \<times> 's"
  RandStringWithAll :: "nat \<Rightarrow> 's \<Rightarrow> string \<times> 's"
  jsonUnmarshal :: "string \<Rightarrow> error + (string \<times> string) list"
  mapRange :: "string list \<Rightarrow> string list"

subsection \<open>Helpers\<close>

definition path :: "'s BackendOperator \<Rightarrow> string \<Rightarrow> string" where
  "path e domainName = prePath e @ convertToPath domainName"

definition convertToMap :: "'s BackendOperator \<Rightarrow> string \<Rightarrow> error + (string \<times> string) list" where
  "convertToMap e v = jsonUnmarshal e v"

text \<open>Indexing a \<open>map[string]string\<close>: a missing key reads as the empty string.\<close>

definition map_index :: "(string \<times> string) list \<Rightarrow> string \<Rightarrow> string" where
  "map_index m k = (case map_of m k of None \<Rightarrow> [] | Some v \<Rightarrow> v)"

definition formatValue :: "string \<Rightarrow> string" where
  "formatValue v = ''{'' @ [dq] @ ValueHostKey @ [dq] @ '':'' @ [dq] @ v @ [dq] @ ''}''"

definition formatTextValue :: "string \<Rightarrow> string" where
  "formatTextValue v = ''{'' @ [dq] @ ValueTextKey @ [dq] @ '':'' @ [dq] @ v @ [dq] @ ''}''"

text \<open>
  \<open>sliceToMap\<close> builds a set of keys; it is kept as a duplicate-free key list, which a
  \<open>range\<close> statement visits in the order \<open>mapRange\<close> gives.
\<close>

definition sliceToMap :: "string list \<Rightarrow> string list" where
  "sliceToMap ss = remdups ss"

definition generateSlug :: "'s BackendOperator \<Rightarrow> 's \<Rightarrow> string \<times> 's" where
  "generateSlug e w = RandStringWithSmall e slugLength w"

definition generateTokenOrigin :: "'s BackendOperator \<Rightarrow> 's \<Rightarrow> string \<times> 's" where
  "generateTokenOrigin e w = RandStringWithAll e tokenOriginLength w"

fun nodesToStringSlice :: "node list \<Rightarrow> string list" where
  "nodesToStringSlice [] = []"
| "nodesToStringSlice (Node key dir v ex nodes # ns) =
     (key # nodesToStringSlice nodes) @ nodesToStringSlice ns"

text \<open>The path of a text record: the ACME branch shared by the four text verbs.\<close>

definition textPath :: "'s BackendOperator \<Rightarrow> string \<Rightarrow> string" where
  "textPath e fqdn =
     (if Contains fqdn ''_acme-challenge''
      then prePath e @ ''/'' @ Join (Split (''_txt'' @ ''.'' @ fqdn) CHR ''.'') ''/''
      else path e fqdn)"

subsection \<open>Token manager and lookups\<close>

text \<open>The loop of \<open>lookupHosts\<close> over \<open>resp.Node.Nodes\<close>.\<close>

fun lookup_nodes :: "'s BackendOperator \<Rightarrow> node list \<Rightarrow> string list \<Rightarrow> error + string list" where
  "lookup_nodes e [] hosts = Inr hosts"
| "lookup_nodes e (n # ns) hosts =
     (case convertToMap e (nValue n) of
        Inl err \<Rightarrow> Inl err
      | Inr v \<Rightarrow> lookup_nodes e ns (hosts @ [map_index v ValueHostKey]))"

definition lookupHosts :: "'s BackendOperator \<Rightarrow> string \<Rightarrow> 's \<Rightarrow> (error + string list) \<times> 's" where
  "lookupHosts e p w =
     (case kapi_Get e p \<lparr>go_Recursive = True, go_Sort = False\<rparr> w of
        (Inl err, w1) \<Rightarrow> (Inl err, w1)
      | (Inr resp, w1) \<Rightarrow> (lookup_nodes e (nNodes resp) [], w1))"

text \<open>
  \<open>setTokenOrigin\<close>: the error of the read is not inspected; a response means the token
  is reused, no response means a token is generated.
\<close>

definition setTokenOrigin :: "'s BackendOperator \<Rightarrow> DomainOptions \<Rightarrow> bool \<Rightarrow> 's \<Rightarrow> (error + unit) \<times> 's" where
  "setTokenOrigin e dopts exist w =
     (let opts = \<lparr>so_TTL = duration e, so_Dir = False,
                  so_PrevExist = (if exist then PrevExist else PrevIgnore)\<rparr>;
          tp = tokenOriginPath (oFqdn dopts)
      in case kapi_Get e tp nilGetOptions w of (resp, w1) \<Rightarrow>
         (case (case resp of Inr n \<Rightarrow> (nValue n, w1) | Inl _ \<Rightarrow> generateTokenOrigin e w1) of
            (tokenOrigin, w2) \<Rightarrow>
              (case kapi_Set e tp tokenOrigin opts w2 of
                 (Inl err, w3) \<Rightarrow> (Inl err, w3)
               | (Inr _, w3) \<Rightarrow> (Inr (), w3))))"

definition GetTokenOrigin :: "'s BackendOperator \<Rightarrow> string \<Rightarrow> 's \<Rightarrow> (error + string) \<times> 's" where
  "GetTokenOrigin e fqdn w =
     (case kapi_Get e (tokenOriginPath fqdn) nilGetOptions w of
        (Inl err, w1) \<Rightarrow> (Inl err, w1)
      | (Inr resp, w1) \<Rightarrow> (Inr (nValue resp), w1))"

subsection \<open>Host reconciliation and \<open>set\<close>\<close>

text \<open>The two \<open>range\<close> loops of \<open>set\<close>: deletes of stale hosts, then writes of new ones.\<close>

fun delete_loop :: "'s BackendOperator \<Rightarrow> string \<Rightarrow> string list \<Rightarrow> string list \<Rightarrow> 's \<Rightarrow> (error + unit) \<times> 's" where
  "delete_loop e p newHostsMap [] w = (Inr (), w)"
| "delete_loop e p newHostsMap (oldh # rest) w =
     (if oldh \<notin> set newHostsMap then
        (case kapi_Delete e (p @ ''/'' @ formatKey oldh) nilDeleteOptions w of
           (Inl err, w1) \<Rightarrow> (Inl err, w1)
         | (Inr _, w1) \<Rightarrow> delete_loop e p newHostsMap rest w1)
      else delete_loop e p newHostsMap rest w)"

fun add_loop :: "'s BackendOperator \<Rightarrow> string \<Rightarrow> string list \<Rightarrow> string list \<Rightarrow> 's \<Rightarrow> (error + unit) \<times> 's" where
  "add_loop e p oldHostsMap [] w = (Inr (), w)"
| "add_loop e p oldHostsMap (newh # rest) w =
     (if newh \<notin> set oldHostsMap then
        (case kapi_Set e (p @ ''/'' @ formatKey newh) (formatValue newh) nilSetOptions w of
           (Inl err, w1) \<Rightarrow> (Inl err, w1)
         | (Inr _, w1) \<Rightarrow> add_loop e p oldHostsMap rest w1)
      else add_loop e p oldHostsMap rest w)"

text \<open>Lines 177 to 201 of \<open>set\<close>: the reconciliation of the stored hosts with the requested ones.\<close>

definition reconcile :: "'s BackendOperator \<Rightarrow> string \<Rightarrow> string list \<Rightarrow> string list \<Rightarrow> 's \<Rightarrow> (error + unit) \<times> 's" where
  "reconcile e p curHosts newHosts w =
     (let newHostsMap = sliceToMap newHosts;
          oldHostsMap = sliceToMap curHosts
      in case delete_loop e p newHostsMap (mapRange e oldHostsMap) w of
           (Inl err, w1) \<Rightarrow> (Inl err, w1)
         | (Inr _, w1) \<Rightarrow> add_loop e p oldHostsMap (mapRange e newHostsMap) w1)"

definition set' :: "'s BackendOperator \<Rightarrow> string \<Rightarrow> DomainOptions \<Rightarrow> bool \<Rightarrow> 's \<Rightarrow> (error + Domain) \<times> 's" where
  "set' e p dopts exist w =
     (case setTokenOrigin e dopts exist w of
        (Inl err, w1) \<Rightarrow> (Inl err, w1)
      | (Inr _, w1) \<Rightarrow>
          (case kapi_Set e p [] \<lparr>so_TTL = duration e, so_Dir = True,
                  so_PrevExist = (if exist then PrevExist else PrevIgnore)\<rparr> w1 of
             (Inl err, w2) \<Rightarrow> (Inl err, w2)
           | (Inr resp, w2) \<Rightarrow>
               (case lookupHosts e p w2 of
                  (Inl err, w3) \<Rightarrow> (Inl err, w3)
                | (Inr curHosts, w3) \<Rightarrow>
                    (case reconcile e p curHosts (oHosts dopts) w3 of
                       (Inl err, w4) \<Rightarrow> (Inl err, w4)
                     | (Inr _, w4) \<Rightarrow>
                         (Inr \<lparr>Fqdn = oFqdn dopts, Hosts = oHosts dopts, Text = [],
                               Expiration = nExpiration resp\<rparr>, w4)))))"

definition setText :: "'s BackendOperator \<Rightarrow> string \<Rightarrow> DomainOptions \<Rightarrow> bool \<Rightarrow> 's \<Rightarrow> (error + Domain) \<times> 's" where
  "setText e p dopts exist w =
     (case kapi_Set e p (formatTextValue (oText dopts))
             \<lparr>so_TTL = duration e, so_Dir = False,
              so_PrevExist = (if exist then PrevExist else PrevIgnore)\<rparr> w of
        (Inl err, w1) \<Rightarrow> (Inl err, w1)
      | (Inr resp, w1) \<Rightarrow>
          (Inr \<lparr>Fqdn = oFqdn dopts, Hosts = [], Text = oText dopts,
                Expiration = nExpiration resp\<rparr>, w1))"

subsection \<open>Expiration refresher\<close>

text \<open>The loop of \<open>refreshExpiration\<close> over the keys below the ACME namespace.\<close>

fun acme_loop :: "'s BackendOperator \<Rightarrow> DomainOptions \<Rightarrow> string list \<Rightarrow> 's \<Rightarrow> (error + unit) \<times> 's" where
  "acme_loop e dopts [] w = (Inr (), w)"
| "acme_loop e dopts (key # rest) w =
     (let splits = Split (oFqdn dopts) CHR ''.'';
          source = Join splits ''/''
      in if Contains key source then
           (case kapi_Get e key nilGetOptions w of
              (Inl err, w1) \<Rightarrow> (Inl err, w1)
            | (Inr getResp, w1) \<Rightarrow>
                (case kapi_Set e key (nValue getResp)
                        \<lparr>so_TTL = duration e, so_Dir = False, so_PrevExist = PrevExist\<rparr> w1 of
                   (Inl err, w2) \<Rightarrow> (Inl err, w2)
                 | (Inr _, w2) \<Rightarrow> acme_loop e dopts rest w2))
         else acme_loop e dopts rest w)"

definition acmePath :: "'s BackendOperator \<Rightarrow> string" where
  "acmePath e = prePath e @ ''/_txt/_acme-challenge''"

definition refreshExpiration :: "'s BackendOperator \<Rightarrow> string \<Rightarrow> DomainOptions \<Rightarrow> 's \<Rightarrow> (error + Domain) \<times> 's" where
  "refreshExpiration e p dopts w =
     (case setTokenOrigin e dopts True w of
        (Inl err, w1) \<Rightarrow> (Inl err, w1)
      | (Inr _, w1) \<Rightarrow>
          (case kapi_Set e p [] \<lparr>so_TTL = duration e, so_Dir = True, so_PrevExist = PrevExist\<rparr> w1 of
             (Inl err, w2) \<Rightarrow> (Inl err, w2)
           | (Inr resp, w2) \<Rightarrow>
               (case lookupHosts e p w2 of
                  (Inl err, w3) \<Rightarrow> (Inl err, w3)
                | (Inr curHosts, w3) \<Rightarrow>
                    (case kapi_Get e (acmePath e) \<lparr>go_Recursive = True, go_Sort = True\<rparr> w3 of
                       (Inl err, w4) \<Rightarrow> (Inl err, w4)
                     | (Inr getResp, w4) \<Rightarrow>
                         (case acme_loop e dopts (nodesToStringSlice (nNodes getResp)) w4 of
                            (Inl err, w5) \<Rightarrow> (Inl err, w5)
                          | (Inr _, w5) \<Rightarrow>
                              (Inr \<lparr>Fqdn = oFqdn dopts, Hosts = curHosts, Text = [],
                                    Expiration = nExpiration resp\<rparr>, w5))))))"

subsection \<open>The verbs\<close>

text \<open>
  Every verb receives a pointer to the caller's \<open>DomainOptions\<close>; the verbs return the
  options as they are when the call ends, beside the result and the world. A Go result
  \<open>(d, err)\<close> is a sum: with an error, the \<open>Domain\<close> returned beside it is dropped.
\<close>

text \<open>The loop of \<open>Get\<close> over the children of the directory: directories are skipped.\<close>

fun get_nodes :: "'s BackendOperator \<Rightarrow> node list \<Rightarrow> string list \<Rightarrow> error + string list" where
  "get_nodes e [] hosts = Inr hosts"
| "get_nodes e (n # ns) hosts =
     (if nDir n then get_nodes e ns hosts
      else (case convertToMap e (nValue n) of
              Inl err \<Rightarrow> Inl err
            | Inr v \<Rightarrow> get_nodes e ns (hosts @ [map_index v ValueHostKey])))"

definition Get :: "'s BackendOperator \<Rightarrow> DomainOptions \<Rightarrow> 's \<Rightarrow> (error + Domain) \<times> DomainOptions \<times> 's" where
  "Get e dopts w =
     (case kapi_Get e (path e (oFqdn dopts)) nilGetOptions w of
        (Inl err, w1) \<Rightarrow> (Inl err, dopts, w1)
      | (Inr resp, w1) \<Rightarrow>
          (case get_nodes e (nNodes resp) [] of
             Inl err \<Rightarrow> (Inl err, dopts, w1)
           | Inr hosts \<Rightarrow>
               (Inr \<lparr>Fqdn = oFqdn dopts, Hosts = hosts, Text = [],
                     Expiration = nExpiration resp\<rparr>, dopts, w1)))"

text \<open>
  The slug loop of \<open>Create\<close>, with the number of attempts left. A probe that reports
  key-not-found stores the candidate name in the caller's options and leaves the loop.
\<close>

fun slug_loop :: "'s BackendOperator \<Rightarrow> nat \<Rightarrow> string \<Rightarrow> DomainOptions \<Rightarrow> 's \<Rightarrow> string \<times> DomainOptions \<times> 's" where
  "slug_loop e 0 p dopts w = (p, dopts, w)"
| "slug_loop e (Suc n) p dopts w =
     (case generateSlug e w of (slug, w1) \<Rightarrow>
        (let fqdn = slug @ ''.'' @ rootDomain e;
             p' = path e fqdn
         in case kapi_Get e p' nilGetOptions w1 of
              (Inl err, w2) \<Rightarrow>
                (if IsKeyNotFound err then (p', dopts\<lparr>oFqdn := fqdn\<rparr>, w2)
                 else slug_loop e n p' dopts w2)
            | (Inr _, w2) \<Rightarrow> slug_loop e n p' dopts w2))"

definition Create :: "'s BackendOperator \<Rightarrow> DomainOptions \<Rightarrow> 's \<Rightarrow> (error + Domain) \<times> DomainOptions \<times> 's" where
  "Create e dopts w =
     (case slug_loop e maxSlugHashTimes [] dopts w of (p, dopts1, w1) \<Rightarrow>
        (case set' e p dopts1 False w1 of
           (Inl err, w2) \<Rightarrow> (Inl err, dopts1, w2)
         | (Inr _, w2) \<Rightarrow> Get e dopts1 w2))"

definition Update :: "'s BackendOperator \<Rightarrow> DomainOptions \<Rightarrow> 's \<Rightarrow> (error + Domain) \<times> DomainOptions \<times> 's" where
  "Update e dopts w =
     (let p = path e (oFqdn dopts)
      in case kapi_Get e p nilGetOptions w of (resp, w1) \<Rightarrow>
           (let exist = (case resp of Inr n \<Rightarrow> nDir n | Inl _ \<Rightarrow> False)
            in case set' e p dopts exist w1 of (r, w2) \<Rightarrow> (r, dopts, w2)))"

definition Renew :: "'s BackendOperator \<Rightarrow> DomainOptions \<Rightarrow> 's \<Rightarrow> (error + Domain) \<times> DomainOptions \<times> 's" where
  "Renew e dopts w =
     (case refreshExpiration e (path e (oFqdn dopts)) dopts w of (r, w1) \<Rightarrow> (r, dopts, w1))"

definition Delete :: "'s BackendOperator \<Rightarrow> DomainOptions \<Rightarrow> 's \<Rightarrow> (error + unit) \<times> DomainOptions \<times> 's" where
  "Delete e dopts w =
     (case kapi_Delete e (path e (oFqdn dopts)) \<lparr>do_Dir = True, do_Recursive = True\<rparr> w of
        (Inl err, w1) \<Rightarrow> (Inl err, dopts, w1)
      | (Inr _, w1) \<Rightarrow> (Inr (), dopts, w1))"

definition CreateText :: "'s BackendOperator \<Rightarrow> DomainOptions \<Rightarrow> 's \<Rightarrow> (error + Domain) \<times> DomainOptions \<times> 's" where
  "CreateText e dopts w =
     (let p = textPath e (oFqdn dopts)
      in case kapi_Get e p nilGetOptions w of (resp, w1) \<Rightarrow>
           (let exist = (case resp of Inl err \<Rightarrow> \<not> IsKeyNotFound err | Inr _ \<Rightarrow> True)
            in case setText e p dopts exist w1 of (r, w2) \<Rightarrow> (r, dopts, w2)))"

definition GetText :: "'s BackendOperator \<Rightarrow> DomainOptions \<Rightarrow> 's \<Rightarrow> (error + Domain) \<times> DomainOptions \<times> 's" where
  "GetText e dopts w =
     (case kapi_Get e (textPath e (oFqdn dopts)) nilGetOptions w of
        (Inl err, w1) \<Rightarrow> (Inl err, dopts, w1)
      | (Inr resp, w1) \<Rightarrow>
          (Inr \<lparr>Fqdn = oFqdn dopts, Hosts = [], Text = nValue resp,
                Expiration = nExpiration resp\<rparr>, dopts, w1))"

definition UpdateText :: "'s BackendOperator \<Rightarrow> DomainOptions \<Rightarrow> 's \<Rightarrow> (error + Domain) \<times> DomainOptions \<times> 's" where
  "UpdateText e dopts w =
     (let p = textPath e (oFqdn dopts)
      in case kapi_Get e p nilGetOptions w of (resp, w1) \<Rightarrow>
           (let exist = (case resp of Inr n \<Rightarrow> nDir n | Inl _ \<Rightarrow> False)
            in case setText e p dopts exist w1 of (r, w2) \<Rightarrow> (r, dopts, w2)))"

definition DeleteText :: "'s BackendOperator \<Rightarrow> DomainOptions \<Rightarrow> 's \<Rightarrow> (error + unit) \<times> DomainOptions \<times> 's" where
  "DeleteText e dopts w =
     (case kapi_Delete e (textPath e (oFqdn dopts)) \<lparr>do_Dir = True, do_Recursive = True\<rparr> w of
        (Inl err, w1) \<Rightarrow> (Inl err, dopts, w1)
      | (Inr _, w1) \<Rightarrow> (Inr (), dopts, w1))"

subsection \<open>Recording the storage operations of a run\<close>

text \<open>
  A call of the key-value API, and the wrapper that runs any backend while appending
  every call, with its outcome, to a log kept beside the world.
\<close>

datatype call =
  CGet string GetOptions
| CSet string string SetOptions
| CDelete string DeleteOptions

type_synonym oplog = "(call \<times> (error + node)) list"

definition logged :: "'s BackendOperator \<Rightarrow> ('s \<times> oplog) BackendOperator" where
  "logged e =
     \<lparr>kapi_Get = (\<lambda>k opts (w, L). case kapi_Get e k opts w of (r, w') \<Rightarrow> (r, (w', L @ [(CGet k opts, r)]))),
      kapi_Set = (\<lambda>k v opts (w, L). case kapi_Set e k v opts w of (r, w') \<Rightarrow> (r, (w', L @ [(CSet k v opts, r)]))),
      kapi_Delete = (\<lambda>k opts (w, L). case kapi_Delete e k opts w of (r, w') \<Rightarrow> (r, (w', L @ [(CDelete k opts, r)]))),
      prePath = prePath e,
      duration = duration e,
      rootDomain = rootDomain e,
      RandStringWithSmall = (\<lambda>n (w, L). case RandStringWithSmall e n w of (x, w') \<Rightarrow> (x, (w', L))),
      RandStringWithAll = (\<lambda>n (w, L). case RandStringWithAll e n w of (x, w') \<Rightarrow> (x, (w', L))),
      jsonUnmarshal = jsonUnmarshal e,
      mapRange = mapRange e\<rparr>"

definition failed :: "call \<times> (error + node) \<Rightarrow> bool" where
  "failed c = (case snd c of Inl _ \<Rightarrow> True | Inr _ \<Rightarrow> False)"

subsection \<open>An in-memory key-value store\<close>

text \<open>
  A small store with the interface of the etcd v2 keys API, used to run the verbs on
  concrete inputs: keys with a directory flag, a value and an expiration; missing parent
  directories are created by a write; a list of scripted faults, one entry consumed by
  each call, makes a call fail without touching the store; a list of scripted random
  strings feeds the generators; the clock stands still.
\<close>

record mem_entry =
  me_dir :: bool
  me_value :: string
  me_exp :: "nat option"

record mem_world =
  mw_store :: "(string \<times> mem_entry) list"
  mw_faults :: "error option list"
  mw_rand :: "string list"
  mw_now :: nat

definition next_fault :: "mem_world \<Rightarrow> error option \<times> mem_world" where
  "next_fault w = (case mw_faults w of [] \<Rightarrow> (None, w) | f # fs \<Rightarrow> (f, w\<lparr>mw_faults := fs\<rparr>))"

definition is_under :: "string \<Rightarrow> string \<Rightarrow> bool" where
  "is_under p k = (take (length p + 1) k = p @ ''/'')"

definition is_child :: "string \<Rightarrow> string \<Rightarrow> bool" where
  "is_child p k = (is_under p k \<and> drop (length p + 1) k \<noteq> [] \<and> CHR ''/'' \<notin> set (drop (length p + 1) k))"

definition parents :: "string \<Rightarrow> string list" where
  "parents k = map (\<lambda>i. take i k) (filter (\<lambda>i. k ! i = CHR ''/'') [1 ..< length k])"

fun mk_node :: "nat \<Rightarrow> bool \<Rightarrow> (string \<times> mem_entry) list \<Rightarrow> string \<times> mem_entry \<Rightarrow> node" where
  "mk_node 0 recursive st (k, en) = Node k (me_dir en) (me_value en) (me_exp en) []"
| "mk_node (Suc fuel) recursive st (k, en) =
     Node k (me_dir en) (me_value en) (me_exp en)
       (if me_dir en
        then map (mk_node (if recursive then fuel else 0) recursive st)
               (filter (\<lambda>(k', en'). is_child k k') st)
        else [])"

definition mem_node :: "bool \<Rightarrow> (string \<times> mem_entry) list \<Rightarrow> string \<times> mem_entry \<Rightarrow> node" where
  "mem_node recursive st ke = mk_node (Suc (length st)) recursive st ke"

definition mem_Get :: "string \<Rightarrow> GetOptions \<Rightarrow> mem_world \<Rightarrow> (error + node) \<times> mem_world" where
  "mem_Get k opts w =
     (case next_fault w of
        (Some err, w1) \<Rightarrow> (Inl err, w1)
      | (None, w1) \<Rightarrow>
          (case map_of (mw_store w1) k of
             None \<Rightarrow> (Inl (EtcdError 100), w1)
           | Some en \<Rightarrow> (Inr (mem_node (go_Recursive opts) (mw_store w1) (k, en)), w1)))"

definition put_entry :: "string \<Rightarrow> mem_entry \<Rightarrow> (string \<times> mem_entry) list \<Rightarrow> (string \<times> mem_entry) list" where
  "put_entry k en st =
     (if map_of st k = None then st @ [(k, en)]
      else map (\<lambda>(k', en'). if k' = k then (k', en) else (k', en')) st)"

definition add_parents :: "string \<Rightarrow> (string \<times> mem_entry) list \<Rightarrow> (string \<times> mem_entry) list" where
  "add_parents k st =
     fold (\<lambda>p st'. if map_of st' p = None
                    then st' @ [(p, \<lparr>me_dir = True, me_value = [], me_exp = None\<rparr>)] else st')
          (parents k) st"

definition mem_Set :: "string \<Rightarrow> string \<Rightarrow> SetOptions \<Rightarrow> mem_world \<Rightarrow> (error + node) \<times> mem_world" where
  "mem_Set k v opts w =
     (case next_fault w of
        (Some err, w1) \<Rightarrow> (Inl err, w1)
      | (None, w1) \<Rightarrow>
          (let st = mw_store w1;
               ex = (if so_TTL opts = 0 then None else Some (mw_now w1 + so_TTL opts))
           in case map_of st k of
                None \<Rightarrow>
                  (if so_PrevExist opts = PrevExist then (Inl (EtcdError 100), w1)
                   else if \<exists>p \<in> set (parents k). (case map_of st p of None \<Rightarrow> False | Some en \<Rightarrow> \<not> me_dir en)
                     then (Inl (EtcdError 104), w1)
                   else (let en = \<lparr>me_dir = so_Dir opts, me_value = (if so_Dir opts then [] else v), me_exp = ex\<rparr>;
                             st' = put_entry k en (add_parents k st)
                         in (Inr (mem_node False st' (k, en)), w1\<lparr>mw_store := st'\<rparr>)))
              | Some old \<Rightarrow>
                  (if so_PrevExist opts = PrevNoExist then (Inl (EtcdError 105), w1)
                   else if so_PrevExist opts = PrevExist then
                     (if me_dir old \<and> v \<noteq> [] then (Inl (EtcdError 102), w1)
                      else (let en = old\<lparr>me_value := (if me_dir old then [] else v), me_exp := ex\<rparr>;
                                st' = put_entry k en st
                            in (Inr (mem_node False st' (k, en)), w1\<lparr>mw_store := st'\<rparr>)))
                   else if me_dir old then (Inl (EtcdError 102), w1)
                   else (let en = \<lparr>me_dir = so_Dir opts, me_value = (if so_Dir opts then [] else v), me_exp = ex\<rparr>;
                             st' = put_entry k en st
                         in (Inr (mem_node False st' (k, en)), w1\<lparr>mw_store := st'\<rparr>)))))"

definition mem_Delete :: "string \<Rightarrow> DeleteOptions \<Rightarrow> mem_world \<Rightarrow> (error + node) \<times> mem_world" where
  "mem_Delete k opts w =
     (case next_fault w of
        (Some err, w1) \<Rightarrow> (Inl err, w1)
      | (None, w1) \<Rightarrow>
          (let st = mw_store w1
           in case map_of st k of
                None \<Rightarrow> (Inl (EtcdError 100), w1)
              | Some en \<Rightarrow>
                  (if me_dir en \<and> \<not> (do_Dir opts \<or> do_Recursive opts) then (Inl (EtcdError 102), w1)
                   else if me_dir en \<and> \<not> do_Recursive opts \<and> (\<exists>ke \<in> set st. is_under k (fst ke))
                     then (Inl (EtcdError 108), w1)
                   else (Inr (mem_node False st (k, en)),
                         w1\<lparr>mw_store := filter (\<lambda>(k', en'). k' \<noteq> k \<and> \<not> is_under k k') st\<rparr>))))"

definition mem_rand :: "nat \<Rightarrow> mem_world \<Rightarrow> string \<times> mem_world" where
  "mem_rand n w =
     (case mw_rand w of [] \<Rightarrow> (replicate n CHR ''a'', w) | r # rs \<Rightarrow> (r, w\<lparr>mw_rand := rs\<rparr>))"

text \<open>
  A stand-in for \<open>json.Unmarshal\<close> on the one shape the backend writes: an object with
  a single string member and no escapes. Anything else, the empty value of a directory
  included, is an error.
\<close>

definition unmarshal_flat :: "string \<Rightarrow> error + (string \<times> string) list" where
  "unmarshal_flat s =
     (case Split s dq of
        [a, k, b, v, c] \<Rightarrow> if a = ''{'' \<and> b = '':'' \<and> c = ''}'' then Inr [(k, v)] else Inl JsonError
      | _ \<Rightarrow> Inl JsonError)"

definition mem_backend :: "mem_world BackendOperator" where
  "mem_backend =
     \<lparr>kapi_Get = mem_Get, kapi_Set = mem_Set, kapi_Delete = mem_Delete,
      prePath = ''/rdns'', duration = 864000, rootDomain = ''lb.example.com'',
      RandStringWithSmall = mem_rand, RandStringWithAll = mem_rand,
      jsonUnmarshal = unmarshal_flat, mapRange = (\<lambda>ks. ks)\<rparr>"

definition mem_empty :: mem_world where
  "mem_empty = \<lparr>mw_store = [], mw_faults = [], mw_rand = [], mw_now = 1000\<rparr>"

subsection \<open>Predicates and concrete worlds used in the statements\<close>

text \<open>
  All of the next \<open>n\<close> probes of the slug loop of \<open>Create\<close> find their path occupied:
  none of them reports key-not-found.
\<close>

fun probes_occupied :: "'s BackendOperator \<Rightarrow> nat \<Rightarrow> 's \<Rightarrow> bool" where
  "probes_occupied e 0 w = True"
| "probes_occupied e (Suc n) w =
     (case generateSlug e w of (slug, w1) \<Rightarrow>
        (case kapi_Get e (path e (slug @ ''.'' @ rootDomain e)) nilGetOptions w1 of
           (Inl err, w2) \<Rightarrow> \<not> IsKeyNotFound err \<and> probes_occupied e n w2
         | (Inr _, w2) \<Rightarrow> probes_occupied e n w2))"

definition acme_opts :: DomainOptions where
  "acme_opts = \<lparr>oFqdn = ''_acme-challenge.x1.lb.example.com'', oHosts = [], oText = ''tok123''\<rparr>"

definition host_opts :: DomainOptions where
  "host_opts = \<lparr>oFqdn = [], oHosts = [''1.2.3.4''], oText = []\<rparr>"

definition renew_opts :: DomainOptions where
  "renew_opts = \<lparr>oFqdn = ''aaaaaa.lb.example.com'', oHosts = [], oText = []\<rparr>"

text \<open>
  A store that holds the token of \<open>x1.lb.example.com\<close>; the next call fails in
  transport, and the next random string is \<open>FRESHTOKEN\<close>.
\<close>

definition token_world :: mem_world where
  "token_world =
     \<lparr>mw_store = [(''/token_origin'', \<lparr>me_dir = True, me_value = [], me_exp = None\<rparr>),
                  (''/token_origin/x1_lb_example_com'',
                   \<lparr>me_dir = False, me_value = ''OWNERTOKEN'', me_exp = Some 500\<rparr>)],
      mw_faults = [Some TransportError],
      mw_rand = [''FRESHTOKEN''],
      mw_now = 1000\<rparr>"

text \<open>
  A store that holds the registration \<open>aaaaaa.lb.example.com\<close> with the host
  \<open>1.2.3.4\<close> and its token, with the given expirations, and nothing below \<open>_txt\<close>.
\<close>

definition host_json :: string where
  "host_json = ''{'' @ [dq] @ ''host'' @ [dq] @ '':'' @ [dq] @ ''1.2.3.4'' @ [dq] @ ''}''"

definition registered_store :: "nat option \<Rightarrow> nat option \<Rightarrow> (string \<times> mem_entry) list" where
  "registered_store token_exp dir_exp =
     [(''/token_origin'', \<lparr>me_dir = True, me_value = [], me_exp = None\<rparr>),
      (''/token_origin/aaaaaa_lb_example_com'',
       \<lparr>me_dir = False, me_value = ''OWNERTOKEN'', me_exp = token_exp\<rparr>),
      (''/rdns'', \<lparr>me_dir = True, me_value = [], me_exp = None\<rparr>),
      (''/rdns/com'', \<lparr>me_dir = True, me_value = [], me_exp = None\<rparr>),
      (''/rdns/com/example'', \<lparr>me_dir = True, me_value = [], me_exp = None\<rparr>),
      (''/rdns/com/example/lb'', \<lparr>me_dir = True, me_value = [], me_exp = None\<rparr>),
      (''/rdns/com/example/lb/aaaaaa'', \<lparr>me_dir = True, me_value = [], me_exp = dir_exp\<rparr>),
      (''/rdns/com/example/lb/aaaaaa/1_2_3_4'',
       \<lparr>me_dir = False, me_value = host_json, me_exp = None\<rparr>)]"

definition registered_world :: "nat option \<Rightarrow> nat option \<Rightarrow> mem_world" where
  "registered_world token_exp dir_exp =
     \<lparr>mw_store = registered_store token_exp dir_exp, mw_faults = [], mw_rand = [], mw_now = 1000\<rparr>"

subsection \<open>Reading the log of a run\<close>

text \<open>
  \<open>failures_last L r\<close>: in the operations \<open>L\<close> only the last one may have failed, and if
  it has, its error is the result \<open>r\<close> of the run. \<open>returned_after k L r\<close>: the first \<open>k\<close>
  operations are reads, and the operations after them satisfy \<open>failures_last\<close>.
\<close>

definition all_ok :: "oplog \<Rightarrow> bool" where
  "all_ok L = list_all (\<lambda>c. \<not> failed c) L"

definition failures_last :: "oplog \<Rightarrow> error + 'a \<Rightarrow> bool" where
  "failures_last L r =
     (all_ok (butlast L)
      \<and> (L = [] \<or> (case snd (last L) of Inl err \<Rightarrow> r = Inl err | Inr _ \<Rightarrow> True)))"

definition is_get :: "call \<times> (error + node) \<Rightarrow> bool" where
  "is_get c = (case fst c of CGet k opts \<Rightarrow> True | _ \<Rightarrow> False)"

definition returned_after :: "nat \<Rightarrow> oplog \<Rightarrow> error + 'a \<Rightarrow> bool" where
  "returned_after k L r = (list_all is_get (take k L) \<and> failures_last (drop k L) r)"

text \<open>
  The calls the two loops of \<open>set\<close> issue for a host: the delete of its key, and the
  write of its value under its key.
\<close>

definition delete_call :: "string \<Rightarrow> string \<Rightarrow> call" where
  "delete_call p h = CDelete (p @ ''/'' @ formatKey h) nilDeleteOptions"

definition write_call :: "string \<Rightarrow> string \<Rightarrow> call" where
  "write_call p h = CSet (p @ ''/'' @ formatKey h) (formatValue h) nilSetOptions"

text \<open>
  The operations that refresh the ACME entries with the keys \<open>ks\<close>, in order: for each
  key a read that succeeds, followed by a write, which succeeds, of the value just read,
  with the TTL \<open>ttl\<close> and the precondition that the key exists.
\<close>

fun acme_refresh_log :: "nat \<Rightarrow> string list \<Rightarrow> oplog \<Rightarrow> bool" where
  "acme_refresh_log ttl [] L = (L = [])"
| "acme_refresh_log ttl (k # ks) ((CGet k1 o1, Inr n) # (CSet k2 v o2, Inr m) # L) =
     (k1 = k \<and> o1 = nilGetOptions \<and> k2 = k \<and> v = nValue n
      \<and> o2 = \<lparr>so_TTL = ttl, so_Dir = False, so_PrevExist = PrevExist\<rparr>
      \<and> acme_refresh_log ttl ks L)"
| "acme_refresh_log ttl (k # ks) L = False"

text \<open>
  Further inputs and recorded runs: an update of a fresh name on the empty store whose
  fourth storage call fails in transport; an update of the registered name that replaces
  its host; renewals of the registered name with an ACME entry of its own and one of
  another name in the store.
\<close>

definition x1_opts :: DomainOptions where
  "x1_opts = \<lparr>oFqdn = ''x1.lb.example.com'', oHosts = [''1.2.3.4''], oText = []\<rparr>"

definition update_opts :: DomainOptions where
  "update_opts = \<lparr>oFqdn = ''aaaaaa.lb.example.com'', oHosts = [''5.6.7.8''], oText = []\<rparr>"

definition text_json :: string where
  "text_json = ''{'' @ [dq] @ ''text'' @ [dq] @ '':'' @ [dq] @ ''tok123'' @ [dq] @ ''}''"

definition acme_world :: "error option list \<Rightarrow> mem_world" where
  "acme_world faults =
     \<lparr>mw_store = registered_store (Some 500) (Some 500) @
        [(''/rdns/_txt'', \<lparr>me_dir = True, me_value = [], me_exp = None\<rparr>),
         (''/rdns/_txt/_acme-challenge'', \<lparr>me_dir = True, me_value = [], me_exp = None\<rparr>),
         (''/rdns/_txt/_acme-challenge/aaaaaa'', \<lparr>me_dir = True, me_value = [], me_exp = None\<rparr>),
         (''/rdns/_txt/_acme-challenge/aaaaaa/lb'', \<lparr>me_dir = True, me_value = [], me_exp = None\<rparr>),
         (''/rdns/_txt/_acme-challenge/aaaaaa/lb/example'', \<lparr>me_dir = True, me_value = [], me_exp = None\<rparr>),
         (''/rdns/_txt/_acme-challenge/aaaaaa/lb/example/com'',
          \<lparr>me_dir = False, me_value = text_json, me_exp = Some 500\<rparr>),
         (''/rdns/_txt/_acme-challenge/other'',
          \<lparr>me_dir = False, me_value = text_json, me_exp = Some 500\<rparr>)],
      mw_faults = faults, mw_rand = [], mw_now = 1000\<rparr>"

definition fault_run :: "(error + Domain) \<times> DomainOptions \<times> mem_world \<times> oplog" where
  "fault_run = Update (logged mem_backend) x1_opts
     (mem_empty\<lparr>mw_faults := [None, None, None, Some TransportError]\<rparr>, [])"

definition update_run :: "(error + Domain) \<times> mem_world \<times> oplog" where
  "update_run = set' (logged mem_backend) ''/rdns/com/example/lb/aaaaaa'' update_opts True
     (registered_world (Some 500) (Some 500), [])"

definition renew_run :: "error option list \<Rightarrow> (error + Domain) \<times> DomainOptions \<times> mem_world \<times> oplog" where
  "renew_run faults = Renew (logged mem_backend) renew_opts (acme_world faults, [])"

section \<open>Properties of the path encoder\<close>

subsection \<open>Splitting and joining\<close>

lemma Split_not_Nil: "Split s c \<noteq> []"
  by (induction s) (auto split: list.splits)

lemma Join_Split: "Join (Split s c) [c] = s"
proof (induction s)
  case Nil
  then show ?case by simp
next
  case (Cons x xs)
  show ?case
  proof (cases "x = c")
    case True
    then show ?thesis using Cons Split_not_Nil[of xs c]
      by (cases "Split xs c") auto
  next
    case False
    then show ?thesis using Cons Split_not_Nil[of xs c]
      by (cases "Split xs c"; cases "tl (Split xs c)") auto
  qed
qed

lemma Split_no_sep: "c \<notin> set s \<Longrightarrow> Split s c = [s]"
  by (induction s) auto

lemma Split_append_sep: "c \<notin> set x \<Longrightarrow> Split (x @ c # r) c = x # Split r c"
  by (induction x) auto

lemma Split_Join:
  "xs \<noteq> [] \<Longrightarrow> \<forall>x \<in> set xs. c \<notin> set x \<Longrightarrow> Split (Join xs [c]) c = xs"
proof (induction xs "[c]" rule: Join.induct)
  case 1
  then show ?case by simp
next
  case (2 x)
  then show ?case by (simp add: Split_no_sep)
next
  case (3 x y ys)
  then show ?case by (simp add: Split_append_sep)
qed

lemma Split_elems: "a \<noteq> c \<Longrightarrow> a \<notin> set s \<Longrightarrow> \<forall>x \<in> set (Split s c). a \<notin> set x"
  by (induction s) (auto split: list.splits)

lemma Split_inj: "Split s c = Split t c \<Longrightarrow> s = t"
  by (metis Join_Split)

subsection \<open>The reversal loop reverses\<close>

lemma length_swap_at: "length (swap_at i ss) = length ss"
  by (simp add: swap_at_def Let_def)

lemma length_fold_swap: "length (fold swap_at js ss) = length ss"
  by (induction js arbitrary: ss) (simp_all add: length_swap_at)

lemma swap_at_nth:
  "i < length xs \<Longrightarrow> length xs - 1 - i < length xs \<Longrightarrow> j < length xs \<Longrightarrow>
   swap_at i xs ! j =
     (if j = length xs - 1 - i then xs ! i else if j = i then xs ! (length xs - 1 - i) else xs ! j)"
  by (simp add: swap_at_def Let_def nth_list_update)

text \<open>
  After \<open>k\<close> rounds the outer \<open>k\<close> positions on either side hold the mirrored
  elements and the middle is untouched.
\<close>

lemma fold_swap_nth:
  "k \<le> length ss div 2 \<Longrightarrow> j < length ss \<Longrightarrow>
   fold swap_at [0 ..< k] ss ! j =
     (if j < k \<or> length ss - k \<le> j then ss ! (length ss - 1 - j) else ss ! j)"
proof (induction k arbitrary: j)
  case 0
  then show ?case by simp
next
  case (Suc k)
  define xs where "xs = fold swap_at [0 ..< k] ss"
  define n where "n = length ss"
  have len: "length xs = n" unfolding xs_def n_def by (rule length_fold_swap)
  have k: "k \<le> n div 2" "k < n" "n - 1 - k < n" "k \<noteq> n - 1 - k" "j < n" "Suc k \<le> n div 2"
    using Suc.prems unfolding n_def by auto
  have a: "xs ! k = ss ! k" using Suc.IH[of k] k unfolding xs_def n_def by auto
  have b: "xs ! (n - 1 - k) = ss ! (n - 1 - k)"
    using Suc.IH[of "n - 1 - k"] k unfolding xs_def n_def by auto
  have c: "xs ! j = (if j < k \<or> n - k \<le> j then ss ! (n - 1 - j) else ss ! j)"
    using Suc.IH[of j] k unfolding xs_def n_def by simp
  have "fold swap_at [0 ..< Suc k] ss ! j = swap_at k xs ! j" by (simp add: xs_def)
  also have "\<dots> = (if j = n - 1 - k then xs ! k else if j = k then xs ! (n - 1 - k) else xs ! j)"
    using swap_at_nth[of k xs j] k len by simp
  also have "\<dots> = (if j < Suc k \<or> n - Suc k \<le> j then ss ! (n - 1 - j) else ss ! j)"
    using a b c k by (auto simp: less_Suc_eq)
  finally show ?case unfolding n_def .
qed

lemma reverse_loop_rev: "reverse_loop ss = rev ss"
proof (rule nth_equalityI)
  show "length (reverse_loop ss) = length (rev ss)"
    by (simp add: reverse_loop_def length_fold_swap)
next
  fix j assume "j < length (reverse_loop ss)"
  then have j: "j < length ss" by (simp add: reverse_loop_def length_fold_swap)
  show "reverse_loop ss ! j = rev ss ! j"
  proof (cases "j < length ss div 2 \<or> length ss - length ss div 2 \<le> j")
    case True
    then show ?thesis using j fold_swap_nth[of "length ss div 2" ss j]
      by (simp add: reverse_loop_def rev_nth)
  next
    case False
    then have "j = length ss - 1 - j" using j by auto
    then show ?thesis using j False fold_swap_nth[of "length ss div 2" ss j]
      by (simp add: reverse_loop_def rev_nth)
  qed
qed

lemma convertToPath_rev: "convertToPath d = ''/'' @ Join (rev (Split d CHR ''.'')) ''/''"
  by (simp add: convertToPath_def reverse_loop_rev)

lemma convertToPath_inj:
  assumes "CHR ''/'' \<notin> set d1" "CHR ''/'' \<notin> set d2" "convertToPath d1 = convertToPath d2"
  shows "d1 = d2"
proof -
  let ?l1 = "rev (Split d1 CHR ''.'')" and ?l2 = "rev (Split d2 CHR ''.'')"
  have j: "Join ?l1 ''/'' = Join ?l2 ''/''" using assms(3) by (simp add: convertToPath_rev)
  have n1: "?l1 \<noteq> []" and n2: "?l2 \<noteq> []" by (simp_all add: Split_not_Nil)
  have e1: "\<forall>x \<in> set ?l1. CHR ''/'' \<notin> set x" using Split_elems[of "CHR ''/''" "CHR ''.''" d1] assms(1) by simp
  have e2: "\<forall>x \<in> set ?l2. CHR ''/'' \<notin> set x" using Split_elems[of "CHR ''/''" "CHR ''.''" d2] assms(2) by simp
  have "?l1 = Split (Join ?l1 ''/'') CHR ''/''" using Split_Join[OF n1 e1] by simp
  also have "\<dots> = ?l2" using Split_Join[OF n2 e2] j by simp
  finally have "Split d1 CHR ''.'' = Split d2 CHR ''.''" by simp
  then show ?thesis by (rule Split_inj)
qed

lemma final_segment_append: "CHR ''/'' \<notin> set s \<Longrightarrow> final_segment (r @ ''/'' @ s) = s"
proof -
  assume a: "CHR ''/'' \<notin> set s"
  have "takeWhile (\<lambda>c. c \<noteq> CHR ''/'') (rev s @ CHR ''/'' # rev r) = rev s"
    using a by (subst takeWhile_append2) auto
  then show ?thesis by (simp add: final_segment_def)
qed

subsection \<open>Claims about the encodings\<close>

text \<open>
  C3, as stated, fails: \<open>formatKey\<close> maps both \<open>.\<close> and \<open>_\<close> to \<open>_\<close>, so the names
  \<open>a.b\<close> and \<open>a_b\<close> share one token key, and decoding that key does not give \<open>a_b\<close>
  back.
\<close>

theorem tokenOriginPath_collision:
  "''a.b'' \<noteq> ''a_b'' \<and> tokenOriginPath ''a.b'' = tokenOriginPath ''a_b''
   \<and> decodeTokenPath (tokenOriginPath ''a_b'') \<noteq> ''a_b''"
  by (simp add: tokenOriginPath_def formatKey_def Replace_def decodeTokenPath_def
      final_segment_def tokenOriginPath_root_def)

text \<open>
  C3, amended: the token path is the fixed root followed by the name with every \<open>.\<close>
  replaced by \<open>_\<close>; distinct names that contain no \<open>_\<close> get distinct token keys, and
  for a name that contains neither \<open>_\<close> nor \<open>/\<close>, replacing \<open>_\<close> by \<open>.\<close> in the final
  segment of its token path gives the name back.
\<close>

theorem tokenOriginPath_injective_without_underscore:
  "tokenOriginPath d = ''/token_origin/'' @ map (\<lambda>c. if c = CHR ''.'' then CHR ''_'' else c) d
   \<and> (CHR ''_'' \<notin> set d1 \<and> CHR ''_'' \<notin> set d2 \<and> d1 \<noteq> d2 \<longrightarrow> tokenOriginPath d1 \<noteq> tokenOriginPath d2)
   \<and> (CHR ''_'' \<notin> set d \<and> CHR ''/'' \<notin> set d \<longrightarrow> decodeTokenPath (tokenOriginPath d) = d)"
proof (intro conjI impI)
  show "tokenOriginPath d = ''/token_origin/'' @ map (\<lambda>c. if c = CHR ''.'' then CHR ''_'' else c) d"
    by (simp add: tokenOriginPath_def tokenOriginPath_root_def formatKey_def Replace_def)
next
  assume a: "CHR ''_'' \<notin> set d1 \<and> CHR ''_'' \<notin> set d2 \<and> d1 \<noteq> d2"
  have "formatKey d1 \<noteq> formatKey d2"
  proof
    assume "formatKey d1 = formatKey d2"
    then have "map (\<lambda>c. if c = CHR ''.'' then CHR ''_'' else c) d1
             = map (\<lambda>c. if c = CHR ''.'' then CHR ''_'' else c) d2"
      by (simp add: formatKey_def Replace_def)
    moreover have "inj_on (\<lambda>c. if c = CHR ''.'' then CHR ''_'' else c) (set d1 \<union> set d2)"
      using a by (auto simp: inj_on_def split: if_splits)
    ultimately have "d1 = d2" by (rule inj_on_map_eq_map[THEN iffD1, rotated])
    then show False using a by simp
  qed
  then show "tokenOriginPath d1 \<noteq> tokenOriginPath d2" by (simp add: tokenOriginPath_def)
next
  assume a: "CHR ''_'' \<notin> set d \<and> CHR ''/'' \<notin> set d"
  have "CHR ''/'' \<notin> set (formatKey d)" using a by (auto simp: formatKey_def Replace_def)
  then have "final_segment (tokenOriginPath d) = formatKey d"
    unfolding tokenOriginPath_def by (rule final_segment_append)
  moreover have "Replace (formatKey d) CHR ''_'' CHR ''.'' = d"
    using a by (induction d) (auto simp: formatKey_def Replace_def)
  ultimately show "decodeTokenPath (tokenOriginPath d) = d" by (simp add: decodeTokenPath_def)
qed

theorem tokenOriginPath_injective_without_underscore_witness:
  "CHR ''_'' \<notin> set ''x1.lb.rancher.cloud'' \<and> CHR ''_'' \<notin> set ''x2.lb.rancher.cloud''
   \<and> CHR ''/'' \<notin> set ''x1.lb.rancher.cloud'' \<and> ''x1.lb.rancher.cloud'' \<noteq> ''x2.lb.rancher.cloud''
   \<and> tokenOriginPath ''x1.lb.rancher.cloud'' \<noteq> tokenOriginPath ''x2.lb.rancher.cloud''
   \<and> decodeTokenPath (tokenOriginPath ''x1.lb.rancher.cloud'') = ''x1.lb.rancher.cloud''"
  using tokenOriginPath_injective_without_underscore
    [of "''x1.lb.rancher.cloud''" "''x1.lb.rancher.cloud''" "''x2.lb.rancher.cloud''", THEN conjunct2]
  by simp

text \<open>
  C6, as stated, fails: a label may contain \<open>/\<close>, the separator of the path. The name
  \<open>a/b\<close> has the single label \<open>a/b\<close>, the name \<open>b.a\<close> has the labels \<open>b\<close> and \<open>a\<close>, and
  both are stored at the same path.
\<close>

theorem path_collision:
  "Split ''a/b'' CHR ''.'' \<noteq> Split ''b.a'' CHR ''.''
   \<and> path mem_backend ''a/b'' = path mem_backend ''b.a''"
  by (simp add: path_def convertToPath_rev)

text \<open>
  C6, amended: the storage path of a name is the backend prefix followed by the
  dot-separated labels of the name in reversed order, joined with \<open>/\<close>; two names that
  contain no \<open>/\<close> and are stored at the same path are the same name (hence have the
  same label sequence).
\<close>

theorem path_reversed_labels_injective:
  "path e d = prePath e @ ''/'' @ Join (rev (Split d CHR ''.'')) ''/''
   \<and> (CHR ''/'' \<notin> set d1 \<and> CHR ''/'' \<notin> set d2 \<and> path e d1 = path e d2
        \<longrightarrow> d1 = d2 \<and> Split d1 CHR ''.'' = Split d2 CHR ''.'')"
  using convertToPath_inj[of d1 d2] by (auto simp: path_def convertToPath_rev)

theorem path_reversed_labels_injective_witness:
  "CHR ''/'' \<notin> set ''x1.lb.rancher.cloud'' \<and> CHR ''/'' \<notin> set ''x2.lb.rancher.cloud''
   \<and> path mem_backend ''x1.lb.rancher.cloud'' = ''/rdns/cloud/rancher/lb/x1''
   \<and> path mem_backend ''x1.lb.rancher.cloud'' \<noteq> path mem_backend ''x2.lb.rancher.cloud''"
proof -
  have "path mem_backend ''x1.lb.rancher.cloud'' \<noteq> path mem_backend ''x2.lb.rancher.cloud''"
    using path_reversed_labels_injective
      [of mem_backend "''x1.lb.rancher.cloud''" "''x1.lb.rancher.cloud''" "''x2.lb.rancher.cloud''",
       THEN conjunct2]
    by auto
  moreover have "path mem_backend ''x1.lb.rancher.cloud'' = ''/rdns/cloud/rancher/lb/x1''"
    using path_reversed_labels_injective
      [of mem_backend "''x1.lb.rancher.cloud''" "''x1.lb.rancher.cloud''" "''x2.lb.rancher.cloud''",
       THEN conjunct1]
    by (simp add: mem_backend_def)
  ultimately show ?thesis by simp
qed

section \<open>Running the verbs on the in-memory store\<close>

lemma replicate_slugLength: "replicate slugLength c = [c, c, c, c, c, c]"
  by (simp add: slugLength_def eval_nat_numeral)

lemma replicate_tokenOriginLength:
  "replicate tokenOriginLength c =
     [c, c, c, c, c, c, c, c, c, c, c, c, c, c, c, c, c, c, c, c, c, c, c, c, c, c, c, c, c, c, c, c]"
  by (simp add: tokenOriginLength_def eval_nat_numeral)

lemmas mem_defs = mem_backend_def mem_empty_def mem_Get_def mem_Set_def mem_Delete_def mem_rand_def
  next_fault_def put_entry_def add_parents_def parents_def mem_node_def is_child_def is_under_def
  unmarshal_flat_def registered_world_def registered_store_def host_json_def renew_opts_def
  host_opts_def acme_opts_def token_world_def

lemmas model_defs = textPath_def
  path_def convertToPath_rev formatTextValue_def formatValue_def formatKey_def Replace_def
  ValueTextKey_def ValueHostKey_def nilGetOptions_def nilSetOptions_def nilDeleteOptions_def
  IsKeyNotFound_def tokenOriginPath_def tokenOriginPath_root_def dq_def
  generateSlug_def generateTokenOrigin_def replicate_slugLength replicate_tokenOriginLength

section \<open>The caller's options\<close>

lemma slug_loop_frame:
  "slug_loop e n p dopts w = (p', dopts', w') \<Longrightarrow>
   oHosts dopts' = oHosts dopts \<and> oText dopts' = oText dopts
   \<and> (oFqdn dopts' = oFqdn dopts \<or> (\<exists>slug. oFqdn dopts' = slug @ ''.'' @ rootDomain e))"
proof (induction n arbitrary: p w)
  case 0
  then show ?case by simp
next
  case (Suc n)
  then show ?case
    by (auto simp: Let_def split: prod.splits sum.splits if_splits)
qed

lemma Create_dopts: "fst (snd (Create e dopts w)) = fst (snd (slug_loop e maxSlugHashTimes [] dopts w))"
  by (simp add: Create_def Get_def split: prod.splits sum.splits)

lemma slug_loop_max:
  "slug_loop e maxSlugHashTimes p dopts w =
     (case generateSlug e w of (slug, w1) \<Rightarrow>
        (let fqdn = slug @ ''.'' @ rootDomain e;
             p' = path e fqdn
         in case kapi_Get e p' nilGetOptions w1 of
              (Inl err, w2) \<Rightarrow>
                (if IsKeyNotFound err then (p', dopts\<lparr>oFqdn := fqdn\<rparr>, w2)
                 else slug_loop e 99 p' dopts w2)
            | (Inr _, w2) \<Rightarrow> slug_loop e 99 p' dopts w2))"
proof -
  have h: "maxSlugHashTimes = Suc 99" by (simp add: maxSlugHashTimes_def)
  show ?thesis unfolding h by (rule slug_loop.simps(2))
qed

text \<open>
  C9, as stated, fails: \<open>Create\<close> writes the generated name into the caller's options.
  On the empty store, with the random source giving \<open>aaaaaa\<close>, the first probe reports
  key-not-found and the empty \<open>Fqdn\<close> the caller supplied becomes
  \<open>aaaaaa.lb.example.com\<close>.
\<close>

theorem Create_overwrites_Fqdn:
  "oFqdn host_opts = []
   \<and> oFqdn (fst (snd (Create mem_backend host_opts mem_empty))) = ''aaaaaa.lb.example.com''"
  by (simp add: Create_dopts slug_loop_max mem_defs model_defs Let_def)

text \<open>
  C9, amended: \<open>Get\<close>, \<open>Update\<close>, \<open>Renew\<close>, \<open>Delete\<close> and the four text verbs leave
  the caller's \<open>DomainOptions\<close> as they found it. \<open>Create\<close> leaves \<open>Hosts\<close> and \<open>Text\<close>
  untouched; \<open>Fqdn\<close> is either untouched or a generated name \<open><slug>.<rootDomain>\<close>.
\<close>

theorem DomainOptions_only_Create_writes_Fqdn:
  "fst (snd (Get e dopts w)) = dopts
   \<and> fst (snd (Update e dopts w)) = dopts
   \<and> fst (snd (Renew e dopts w)) = dopts
   \<and> fst (snd (Delete e dopts w)) = dopts
   \<and> fst (snd (CreateText e dopts w)) = dopts
   \<and> fst (snd (GetText e dopts w)) = dopts
   \<and> fst (snd (UpdateText e dopts w)) = dopts
   \<and> fst (snd (DeleteText e dopts w)) = dopts
   \<and> oHosts (fst (snd (Create e dopts w))) = oHosts dopts
   \<and> oText (fst (snd (Create e dopts w))) = oText dopts
   \<and> (oFqdn (fst (snd (Create e dopts w))) = oFqdn dopts
        \<or> (\<exists>slug. oFqdn (fst (snd (Create e dopts w))) = slug @ ''.'' @ rootDomain e))"
proof -
  obtain p' dopts' w' where s: "slug_loop e maxSlugHashTimes [] dopts w = (p', dopts', w')"
    by (cases "slug_loop e maxSlugHashTimes [] dopts w") auto
  have c: "fst (snd (Create e dopts w)) = dopts'" by (simp add: Create_dopts s)
  have 1: "fst (snd (Get e dopts w)) = dopts" by (simp add: Get_def split: prod.splits sum.splits)
  have 2: "fst (snd (Update e dopts w)) = dopts" by (simp add: Update_def Let_def split: prod.splits)
  have 3: "fst (snd (Renew e dopts w)) = dopts" by (simp add: Renew_def split: prod.splits)
  have 4: "fst (snd (Delete e dopts w)) = dopts" by (simp add: Delete_def split: prod.splits sum.splits)
  have 5: "fst (snd (CreateText e dopts w)) = dopts" by (simp add: CreateText_def Let_def split: prod.splits)
  have 6: "fst (snd (GetText e dopts w)) = dopts" by (simp add: GetText_def split: prod.splits sum.splits)
  have 7: "fst (snd (UpdateText e dopts w)) = dopts" by (simp add: UpdateText_def Let_def split: prod.splits)
  have 8: "fst (snd (DeleteText e dopts w)) = dopts" by (simp add: DeleteText_def split: prod.splits sum.splits)
  show ?thesis using slug_loop_frame[OF s] 1 2 3 4 5 6 7 8 unfolding c by simp
qed

section \<open>Text records\<close>

text \<open>
  C1: the claim says that \<open>GetText\<close> returns the text that \<open>CreateText\<close> stored. The
  code stores \<open>formatTextValue\<close> of the text and \<open>GetText\<close> returns the stored value as
  it is: after \<open>CreateText\<close> of \<open>tok123\<close> for \<open>_acme-challenge.x1.lb.example.com\<close> on
  the empty store (which itself answers with \<open>Text = tok123\<close>), \<open>GetText\<close> answers with
  the JSON wrapper around \<open>tok123\<close>.
\<close>

theorem GetText_returns_serialized_wrapper:
  "fst (CreateText mem_backend acme_opts mem_empty)
     = Inr \<lparr>Fqdn = ''_acme-challenge.x1.lb.example.com'', Hosts = [], Text = ''tok123'',
            Expiration = Some 865000\<rparr>
   \<and> fst (GetText mem_backend acme_opts (snd (snd (CreateText mem_backend acme_opts mem_empty))))
     = Inr \<lparr>Fqdn = ''_acme-challenge.x1.lb.example.com'', Hosts = [],
            Text = ''{'' @ [dq] @ ''text'' @ [dq] @ '':'' @ [dq] @ ''tok123'' @ [dq] @ ''}'',
            Expiration = Some 865000\<rparr>
   \<and> ''{'' @ [dq] @ ''text'' @ [dq] @ '':'' @ [dq] @ ''tok123'' @ [dq] @ ''}'' \<noteq> ''tok123''"
  by (simp add: CreateText_def GetText_def setText_def mem_defs model_defs Let_def)

section \<open>The ownership token\<close>

text \<open>
  C8: the claim says that the token of a domain never changes once it exists. In
  \<open>setTokenOrigin\<close> any failed read counts as an absent token: with the token
  \<open>OWNERTOKEN\<close> stored for \<open>x1.lb.example.com\<close>, a read that fails in transport
  followed by a write that succeeds replaces it by the fresh \<open>FRESHTOKEN\<close>.
\<close>

theorem setTokenOrigin_replaces_token_on_failed_read:
  "fst (GetTokenOrigin mem_backend ''x1.lb.example.com'' (token_world\<lparr>mw_faults := []\<rparr>))
     = Inr ''OWNERTOKEN''
   \<and> fst (setTokenOrigin mem_backend
            \<lparr>oFqdn = ''x1.lb.example.com'', oHosts = [''1.2.3.4''], oText = []\<rparr> True token_world)
     = Inr ()
   \<and> fst (GetTokenOrigin mem_backend ''x1.lb.example.com''
        (snd (setTokenOrigin mem_backend
               \<lparr>oFqdn = ''x1.lb.example.com'', oHosts = [''1.2.3.4''], oText = []\<rparr> True token_world)))
     = Inr ''FRESHTOKEN''"
  by (simp add: setTokenOrigin_def GetTokenOrigin_def mem_defs model_defs Let_def)

section \<open>Exhausted slug attempts\<close>

text \<open>
  With every probe occupied the loop ends without a name for the caller, and \<open>Create\<close>
  goes on to \<open>set\<close> at the last probed path.
\<close>

lemma slug_loop_occupied:
  "probes_occupied e n w \<Longrightarrow> \<exists>p' w'. slug_loop e n p dopts w = (p', dopts, w')"
proof (induction n arbitrary: p w)
  case 0
  then show ?case by simp
next
  case (Suc n)
  then show ?case
    by (auto simp: Let_def split: prod.splits sum.splits)
qed

lemma Create_after_occupied_probes:
  assumes "probes_occupied e maxSlugHashTimes w"
  shows "\<exists>p w1. slug_loop e maxSlugHashTimes [] dopts w = (p, dopts, w1)
     \<and> Create e dopts w =
         (case set' e p dopts False w1 of
            (Inl err, w2) \<Rightarrow> (Inl err, dopts, w2)
          | (Inr d, w2) \<Rightarrow> Get e dopts w2)"
proof -
  from slug_loop_occupied[OF assms] obtain p w1 where
    "slug_loop e maxSlugHashTimes [] dopts w = (p, dopts, w1)" by blast
  then show ?thesis by (auto simp: Create_def)
qed

lemma mem_probe:
  assumes "mw_faults w = []" "mw_rand w = []"
    and "map_of (mw_store w) ''/rdns/com/example/lb/aaaaaa'' = Some en"
  shows "generateSlug mem_backend w = (''aaaaaa'', w)"
    and "kapi_Get mem_backend (path mem_backend
            (CHR ''a'' # CHR ''a'' # CHR ''a'' # CHR ''a'' # CHR ''a'' # CHR ''a'' # CHR ''.'' # rootDomain mem_backend))
           nilGetOptions w
         = (Inr (mem_node False (mw_store w) (''/rdns/com/example/lb/aaaaaa'', en)), w)"
  using assms by (simp_all add: mem_backend_def mem_Get_def next_fault_def mem_rand_def model_defs)

lemma mem_probes_occupied:
  assumes "mw_faults w = []" "mw_rand w = []"
    and "map_of (mw_store w) ''/rdns/com/example/lb/aaaaaa'' = Some en"
  shows "probes_occupied mem_backend n w"
  by (induction n) (simp_all add: mem_probe[OF assms])

lemma mem_slug_loop_occupied:
  assumes "mw_faults w = []" "mw_rand w = []"
    and "map_of (mw_store w) ''/rdns/com/example/lb/aaaaaa'' = Some en"
  shows "slug_loop mem_backend (Suc n) p dopts w = (''/rdns/com/example/lb/aaaaaa'', dopts, w)"
proof (induction n arbitrary: p)
  case 0
  show ?case using mem_probe(2)[OF assms]
    by (simp add: mem_probe(1)[OF assms] Let_def) (simp add: mem_backend_def model_defs)
next
  case (Suc n)
  show ?case using mem_probe(2)[OF assms] Suc[of "''/rdns/com/example/lb/aaaaaa''"]
    by (subst slug_loop.simps(2)) (simp add: mem_probe(1)[OF assms] Let_def)
qed

text \<open>
  C2: the claim says that \<open>Create\<close> fails with a capacity error when all
  \<open>maxSlugHashTimes\<close> probes find their path occupied. The code has no check after the
  loop. With every slug being \<open>aaaaaa\<close> and \<open>aaaaaa.lb.example.com\<close> registered, all
  probes find the path occupied; \<open>Create\<close> then calls \<open>set\<close> on that path with the
  caller's unchanged options: it writes a token for the empty name at \<open>/token_origin/\<close>,
  and the error it returns is the store's refusal (code 102) to overwrite the directory.
\<close>

theorem Create_exhausted_slugs_no_capacity_error:
  "probes_occupied mem_backend maxSlugHashTimes (registered_world (Some 5000) (Some 5000))
   \<and> Create mem_backend host_opts (registered_world (Some 5000) (Some 5000))
     = (Inl (EtcdError 102), host_opts,
        (registered_world (Some 5000) (Some 5000))
          \<lparr>mw_store := registered_store (Some 5000) (Some 5000)
             @ [(''/token_origin/'',
                 \<lparr>me_dir = False, me_value = ''aaaaaaaaaaaaaaaaaaaaaaaaaaaaaaaa'',
                    me_exp = Some 865000\<rparr>)]\<rparr>)"
proof -
  let ?w = "registered_world (Some 5000) (Some 5000)"
  let ?w' = "?w\<lparr>mw_store := registered_store (Some 5000) (Some 5000)
             @ [(''/token_origin/'',
                 \<lparr>me_dir = False, me_value = ''aaaaaaaaaaaaaaaaaaaaaaaaaaaaaaaa'',
                    me_exp = Some 865000\<rparr>)]\<rparr>"
  have f: "mw_faults ?w = []" "mw_rand ?w = []"
    "map_of (mw_store ?w) ''/rdns/com/example/lb/aaaaaa''
       = Some \<lparr>me_dir = True, me_value = [], me_exp = Some 5000\<rparr>"
    by (simp_all add: registered_world_def registered_store_def)
  have mx: "maxSlugHashTimes = Suc 99" by (simp add: maxSlugHashTimes_def)
  have l: "slug_loop mem_backend maxSlugHashTimes [] host_opts ?w
             = (''/rdns/com/example/lb/aaaaaa'', host_opts, ?w)"
    unfolding mx by (rule mem_slug_loop_occupied[OF f])
  have t: "setTokenOrigin mem_backend host_opts False ?w = (Inr (), ?w')"
    by (simp add: setTokenOrigin_def mem_defs model_defs Let_def)
  have s: "set' mem_backend ''/rdns/com/example/lb/aaaaaa'' host_opts False ?w
             = (Inl (EtcdError 102), ?w')"
    unfolding set'_def t by (simp add: mem_defs model_defs Let_def)
  show ?thesis
    using mem_probes_occupied[OF f, of maxSlugHashTimes] by (simp add: Create_def l s)
qed

section \<open>The storage operations of a run\<close>

subsection \<open>The recording backend\<close>

lemma logged_sel [simp]:
  "kapi_Get (logged e) k gopts (w, L) =
     (case kapi_Get e k gopts w of (r, w') \<Rightarrow> (r, (w', L @ [(CGet k gopts, r)])))"
  "kapi_Set (logged e) k v sopts (w, L) =
     (case kapi_Set e k v sopts w of (r, w') \<Rightarrow> (r, (w', L @ [(CSet k v sopts, r)])))"
  "kapi_Delete (logged e) k dopts (w, L) =
     (case kapi_Delete e k dopts w of (r, w') \<Rightarrow> (r, (w', L @ [(CDelete k dopts, r)])))"
  "RandStringWithSmall (logged e) n (w, L) =
     (case RandStringWithSmall e n w of (x, w') \<Rightarrow> (x, (w', L)))"
  "RandStringWithAll (logged e) n (w, L) =
     (case RandStringWithAll e n w of (x, w') \<Rightarrow> (x, (w', L)))"
  "prePath (logged e) = prePath e"
  "duration (logged e) = duration e"
  "rootDomain (logged e) = rootDomain e"
  "jsonUnmarshal (logged e) = jsonUnmarshal e"
  "mapRange (logged e) = mapRange e"
  by (simp_all add: logged_def)

lemma logged_paths [simp]:
  "path (logged e) d = path e d"
  "textPath (logged e) d = textPath e d"
  "acmePath (logged e) = acmePath e"
  "convertToMap (logged e) v = convertToMap e v"
  by (simp_all add: path_def textPath_def acmePath_def convertToMap_def)

lemma lookup_nodes_logged [simp]: "lookup_nodes (logged e) ns hs = lookup_nodes e ns hs"
  by (induction ns arbitrary: hs) (simp_all split: sum.splits)

lemma get_nodes_logged [simp]: "get_nodes (logged e) ns hs = get_nodes e ns hs"
  by (induction ns arbitrary: hs) (simp_all split: sum.splits)

lemma all_ok_simps [simp]:
  "all_ok []"
  "all_ok (c # L) = (\<not> failed c \<and> all_ok L)"
  "all_ok (A @ B) = (all_ok A \<and> all_ok B)"
  by (simp_all add: all_ok_def)

lemma failed_simps [simp]: "failed (c, Inl err)" "\<not> failed (c, Inr n)"
  by (simp_all add: failed_def)

lemma fl_Nil [simp]: "failures_last [] r"
  by (simp add: failures_last_def)

lemma fl_single [simp]:
  "failures_last [(c, Inl err)] r = (r = Inl err)" "failures_last [(c, Inr n)] r"
  by (simp_all add: failures_last_def)

lemma all_ok_last: "all_ok A \<Longrightarrow> A \<noteq> [] \<Longrightarrow> \<not> failed (last A)"
  by (simp add: all_ok_def list_all_iff)

lemma all_ok_butlast: "all_ok A \<Longrightarrow> all_ok (butlast A)"
  by (auto simp: all_ok_def list_all_iff dest: in_set_butlastD)

lemma fl_append_ok: "all_ok A \<Longrightarrow> failures_last (A @ B) r = failures_last B r"
proof (cases "B = []")
  case True
  assume a: "all_ok A"
  then show ?thesis using True all_ok_last[OF a] all_ok_butlast[OF a]
    by (cases "A = []") (auto simp: failures_last_def failed_def split: sum.splits)
next
  case False
  assume a: "all_ok A"
  then show ?thesis using False by (simp add: failures_last_def butlast_append)
qed

lemma fl_Cons_ok [simp]: "failures_last ((c, Inr n) # B) r = failures_last B r"
  using fl_append_ok[of "[(c, Inr n)]" B r] by simp

lemma fl_Inr_all_ok: "failures_last L (Inr x) \<Longrightarrow> all_ok L"
proof (cases "L = []")
  case True then show ?thesis by simp
next
  case False
  assume "failures_last L (Inr x)"
  then have "all_ok (butlast L)" "\<not> failed (last L)"
    using False by (auto simp: failures_last_def failed_def split: sum.splits)
  then have "all_ok (butlast L @ [last L])" by simp
  then show ?thesis using False by simp
qed

lemma fl_Cons_Cons [simp]: "failures_last (c # d # B) r = (\<not> failed c \<and> failures_last (d # B) r)"
  by (simp add: failures_last_def)

lemma fl_sum_case:
  "(case s of Inl err \<Rightarrow> r = Inl err | Inr x \<Rightarrow> P x) \<Longrightarrow> failures_last [(c, s)] r"
  by (cases s) simp_all

lemma fl_Inl_retype:
  "failures_last L (Inl err :: error + 'a) \<Longrightarrow> failures_last L (Inl err :: error + 'b)"
  by (auto simp: failures_last_def split: sum.splits)

lemma fl_all_ok: "all_ok L \<Longrightarrow> failures_last L r"
  by (cases "L = []") (auto simp: failures_last_def all_ok_butlast failed_def split: sum.splits dest: all_ok_last)

lemma fl_drop: "failures_last L r \<Longrightarrow> failures_last (drop n L) r"
proof (cases "drop n L = []")
  case True
  then show ?thesis by simp
next
  case False
  assume a: "failures_last L r"
  have "L \<noteq> []" using False by auto
  moreover have "butlast (drop n L) = drop n (butlast L)" by (simp add: butlast_drop)
  moreover have "last (drop n L) = last L" using False by simp
  moreover have "all_ok (drop n (butlast L))" using a
    by (auto simp: failures_last_def all_ok_def list_all_iff dest: in_set_dropD)
  ultimately show ?thesis using a False by (simp add: failures_last_def)
qed

subsection \<open>The operations of each function\<close>

lemma setTokenOrigin_log:
  "setTokenOrigin (logged e) dopts exist (w, L) = (r, (w', L')) \<Longrightarrow>
   \<exists>g tok s. L' = L @ [(CGet (tokenOriginPath (oFqdn dopts)) nilGetOptions, g),
                        (CSet (tokenOriginPath (oFqdn dopts)) tok
                           \<lparr>so_TTL = duration e, so_Dir = False,
                            so_PrevExist = (if exist then PrevExist else PrevIgnore)\<rparr>, s)]
     \<and> (case s of Inl err \<Rightarrow> r = Inl err | Inr _ \<Rightarrow> r = Inr ())"
  by (auto simp: setTokenOrigin_def generateTokenOrigin_def Let_def
      split: prod.split_asm sum.split_asm if_split_asm)

lemma lookupHosts_log:
  "lookupHosts (logged e) p (w, L) = (r, (w', L')) \<Longrightarrow>
   \<exists>g. L' = L @ [(CGet p \<lparr>go_Recursive = True, go_Sort = False\<rparr>, g)]
     \<and> (case g of Inl err \<Rightarrow> r = Inl err | Inr resp \<Rightarrow> r = lookup_nodes e (nNodes resp) [])"
  by (auto simp: lookupHosts_def split: prod.split_asm sum.split_asm)

lemma delete_loop_log:
  "delete_loop (logged e) p new old (w, L) = (r, (w', L')) \<Longrightarrow>
   \<exists>ops. L' = L @ ops \<and> failures_last ops r
     \<and> (r = Inr () \<longrightarrow> map fst ops = map (delete_call p) (filter (\<lambda>h. h \<notin> set new) old))"
proof (induction old arbitrary: w L)
  case Nil
  then show ?case by auto
next
  case (Cons oldh rest)
  show ?case
  proof (cases "oldh \<in> set new")
    case True
    then show ?thesis using Cons by simp
  next
    case False
    obtain x w1 where k: "kapi_Delete e (p @ ''/'' @ formatKey oldh) nilDeleteOptions w = (x, w1)"
      by (cases "kapi_Delete e (p @ ''/'' @ formatKey oldh) nilDeleteOptions w") auto
    show ?thesis
    proof (cases x)
      case (Inl err)
      then show ?thesis using Cons.prems False k by auto
    next
      case (Inr n)
      then have "delete_loop (logged e) p new rest
          (w1, L @ [(CDelete (p @ ''/'' @ formatKey oldh) nilDeleteOptions, Inr n)]) = (r, (w', L'))"
        using Cons.prems False k by simp
      from Cons.IH[OF this] show ?thesis using False by (auto simp: delete_call_def)
    qed
  qed
qed

lemma add_loop_log:
  "add_loop (logged e) p old new (w, L) = (r, (w', L')) \<Longrightarrow>
   \<exists>ops. L' = L @ ops \<and> failures_last ops r
     \<and> (r = Inr () \<longrightarrow> map fst ops = map (write_call p) (filter (\<lambda>h. h \<notin> set old) new))"
proof (induction new arbitrary: w L)
  case Nil
  then show ?case by auto
next
  case (Cons newh rest)
  show ?case
  proof (cases "newh \<in> set old")
    case True
    then show ?thesis using Cons by simp
  next
    case False
    obtain x w1 where k: "kapi_Set e (p @ ''/'' @ formatKey newh) (formatValue newh) nilSetOptions w = (x, w1)"
      by (cases "kapi_Set e (p @ ''/'' @ formatKey newh) (formatValue newh) nilSetOptions w") auto
    show ?thesis
    proof (cases x)
      case (Inl err)
      then show ?thesis using Cons.prems False k by auto
    next
      case (Inr n)
      then have "add_loop (logged e) p old rest
          (w1, L @ [(CSet (p @ ''/'' @ formatKey newh) (formatValue newh) nilSetOptions, Inr n)]) = (r, (w', L'))"
        using Cons.prems False k by simp
      from Cons.IH[OF this] show ?thesis using False by (auto simp: write_call_def)
    qed
  qed
qed

lemma reconcile_log:
  assumes "reconcile (logged e) p cur new (w, L) = (r, (w', L'))"
  shows "\<exists>ops. L' = L @ ops \<and> failures_last ops r
     \<and> (r = Inr () \<longrightarrow> map fst ops =
           map (delete_call p) (filter (\<lambda>h. h \<notin> set new) (mapRange e (sliceToMap cur)))
         @ map (write_call p) (filter (\<lambda>h. h \<notin> set cur) (mapRange e (sliceToMap new))))"
proof -
  obtain r1 w1 L1 where d: "delete_loop (logged e) p (sliceToMap new) (mapRange e (sliceToMap cur)) (w, L) = (r1, (w1, L1))"
    by (metis prod.exhaust)
  from delete_loop_log[OF d] obtain ops1 where o1: "L1 = L @ ops1" "failures_last ops1 r1"
    "r1 = Inr () \<longrightarrow> map fst ops1 = map (delete_call p) (filter (\<lambda>h. h \<notin> set (sliceToMap new)) (mapRange e (sliceToMap cur)))"
    by blast
  show ?thesis
  proof (cases r1)
    case (Inl err)
    then show ?thesis using assms d o1 by (auto simp: reconcile_def Let_def)
  next
    case (Inr u)
    then have a: "add_loop (logged e) p (sliceToMap cur) (mapRange e (sliceToMap new)) (w1, L1) = (r, (w', L'))"
      using assms d by (simp add: reconcile_def Let_def)
    from add_loop_log[OF a] obtain ops2 where o2: "L' = L1 @ ops2" "failures_last ops2 r"
      "r = Inr () \<longrightarrow> map fst ops2 = map (write_call p) (filter (\<lambda>h. h \<notin> set (sliceToMap cur)) (mapRange e (sliceToMap new)))"
      by blast
    have ok1: "all_ok ops1" using o1(2) Inr by (auto dest: fl_Inr_all_ok)
    have "failures_last (ops1 @ ops2) r" using ok1 o2(2) by (simp add: fl_append_ok)
    then show ?thesis using o1 o2 Inr by (auto simp: sliceToMap_def)
  qed
qed

lemma acme_loop_log:
  "acme_loop (logged e) dopts keys (w, L) = (r, (w', L')) \<Longrightarrow>
   \<exists>ops. L' = L @ ops \<and> failures_last ops r
     \<and> (r = Inr () \<longrightarrow> acme_refresh_log (duration e)
           (filter (\<lambda>k. Contains k (Join (Split (oFqdn dopts) CHR ''.'') ''/'')) keys) ops)"
proof (induction keys arbitrary: w L)
  case Nil
  then show ?case by auto
next
  case (Cons key rest)
  let ?src = "Join (Split (oFqdn dopts) CHR ''.'') ''/''"
  show ?case
  proof (cases "Contains key ?src")
    case False
    then show ?thesis using Cons by (simp add: Let_def)
  next
    case True
    obtain g w1 where k: "kapi_Get e key nilGetOptions w = (g, w1)"
      by (cases "kapi_Get e key nilGetOptions w") auto
    show ?thesis
    proof (cases g)
      case (Inl err)
      then show ?thesis using Cons.prems True k by (auto simp: Let_def)
    next
      case (Inr n)
      obtain s w2 where k2: "kapi_Set e key (nValue n)
          \<lparr>so_TTL = duration e, so_Dir = False, so_PrevExist = PrevExist\<rparr> w1 = (s, w2)"
        by (metis prod.exhaust)
      show ?thesis
      proof (cases s)
        case (Inl err)
        then show ?thesis using Cons.prems True k k2 Inr by (auto simp: Let_def)
      next
        case (Inr m)
        then have "acme_loop (logged e) dopts rest
          (w2, (L @ [(CGet key nilGetOptions, Inr n)]) @
               [(CSet key (nValue n) \<lparr>so_TTL = duration e, so_Dir = False, so_PrevExist = PrevExist\<rparr>, Inr m)])
          = (r, (w', L'))"
          using Cons.prems True k k2 \<open>g = Inr n\<close> by (simp add: Let_def)
        from Cons.IH[OF this] show ?thesis using True by auto
      qed
    qed
  qed
qed

lemma set'_log:
  assumes "set' (logged e) p dopts exist (w, L) = (r, (w', L'))"
  shows "\<exists>c ops. L' = L @ c # ops \<and> is_get c \<and> failures_last ops r
     \<and> (\<forall>d. r = Inr d \<longrightarrow> (\<exists>s1 s2 resp A rops.
           ops = [s1, s2, (CGet p \<lparr>go_Recursive = True, go_Sort = False\<rparr>, Inr resp)] @ rops
         \<and> lookup_nodes e (nNodes resp) [] = Inr A
         \<and> all_ok rops
         \<and> map fst rops =
             map (delete_call p) (filter (\<lambda>h. h \<notin> set (oHosts dopts)) (mapRange e (sliceToMap A)))
           @ map (write_call p) (filter (\<lambda>h. h \<notin> set A) (mapRange e (sliceToMap (oHosts dopts))))))"
proof -
  obtain r1 w1 L1 where t: "setTokenOrigin (logged e) dopts exist (w, L) = (r1, (w1, L1))"
    by (metis prod.exhaust)
  from setTokenOrigin_log[OF t] obtain c s1 where
    l1: "L1 = L @ [c, s1]" and c1: "case snd s1 of Inl err \<Rightarrow> r1 = Inl err | Inr _ \<Rightarrow> r1 = Inr ()"
    and cg: "is_get c"
    by (force simp: is_get_def)
  show ?thesis
  proof (cases "snd s1")
    case (Inl err)
    then have "r = Inl err" "L' = L1" using assms t c1 by (auto simp: set'_def)
    then show ?thesis using l1 Inl cg by (cases s1) auto
  next
    case s1ok: (Inr n1)
    then have r1: "r1 = Inr ()" using c1 by simp
    obtain r2 w2 where k2: "kapi_Set e p [] \<lparr>so_TTL = duration e, so_Dir = True,
        so_PrevExist = (if exist then PrevExist else PrevIgnore)\<rparr> w1 = (r2, w2)"
      by (metis prod.exhaust)
    define s2 where "s2 = (CSet p [] \<lparr>so_TTL = duration e, so_Dir = True,
        so_PrevExist = (if exist then PrevExist else PrevIgnore)\<rparr>, r2)"
    show ?thesis
    proof (cases r2)
      case (Inl err)
      then have "r = Inl err" "L' = L1 @ [s2]" using assms t r1 k2 by (auto simp: set'_def s2_def)
      then show ?thesis using l1 s1ok Inl cg by (cases s1) (auto simp: s2_def)
    next
      case r2ok: (Inr resp2)
      obtain r3 w3 L3 where k3: "lookupHosts (logged e) p (w2, L1 @ [s2]) = (r3, (w3, L3))"
        by (metis prod.exhaust)
      from lookupHosts_log[OF k3] obtain g where
        l3: "L3 = L1 @ [s2] @ [(CGet p \<lparr>go_Recursive = True, go_Sort = False\<rparr>, g)]"
        and c3: "case g of Inl err \<Rightarrow> r3 = Inl err | Inr resp \<Rightarrow> r3 = lookup_nodes e (nNodes resp) []"
        by auto
      have step: "set' (logged e) p dopts exist (w, L) =
        (case r3 of Inl err \<Rightarrow> (Inl err, (w3, L3))
         | Inr curHosts \<Rightarrow>
            (case reconcile (logged e) p curHosts (oHosts dopts) (w3, L3) of
               (Inl err, w4) \<Rightarrow> (Inl err, w4)
             | (Inr _, w4) \<Rightarrow> (Inr \<lparr>Fqdn = oFqdn dopts, Hosts = oHosts dopts, Text = [],
                               Expiration = nExpiration resp2\<rparr>, w4)))"
        using t r1 k2 r2ok k3 by (simp add: set'_def s2_def split: sum.splits)
      show ?thesis
      proof (cases r3)
        case (Inl err)
        then have rr: "r = Inl err" "L' = L3" using assms step by auto
        have "failures_last [(CGet p \<lparr>go_Recursive = True, go_Sort = False\<rparr>, g)] r"
          using c3 Inl rr by (cases g) auto
        then show ?thesis using rr l1 l3 s1ok r2ok cg by (cases s1) (auto simp: s2_def)
      next
        case r3ok: (Inr A)
        obtain r4 w4 L4 where k4: "reconcile (logged e) p A (oHosts dopts) (w3, L3) = (r4, (w4, L4))"
          by (metis prod.exhaust)
        from reconcile_log[OF k4] obtain rops where
          l4: "L4 = L3 @ rops" and f4: "failures_last rops r4"
          and m4: "r4 = Inr () \<longrightarrow> map fst rops =
             map (delete_call p) (filter (\<lambda>h. h \<notin> set (oHosts dopts)) (mapRange e (sliceToMap A)))
           @ map (write_call p) (filter (\<lambda>h. h \<notin> set A) (mapRange e (sliceToMap (oHosts dopts))))"
          by blast
        have L': "L' = L4" using assms step r3ok k4 by (auto split: sum.splits)
        have shape: "L' = L @ c # ([s1, s2, (CGet p \<lparr>go_Recursive = True, go_Sort = False\<rparr>, g)] @ rops)"
          using L' l4 l3 l1 by simp
        have ok: "all_ok [s1, s2]" using s1ok r2ok by (cases s1) (simp add: s2_def)
        show ?thesis
        proof (cases g)
          case (Inl err)
          then show ?thesis using c3 r3ok by simp
        next
          case gok: (Inr resp)
          then have A: "lookup_nodes e (nNodes resp) [] = Inr A" using c3 r3ok by simp
          have ok3: "all_ok [s1, s2, (CGet p \<lparr>go_Recursive = True, go_Sort = False\<rparr>, g)]"
            using ok gok by simp
          show ?thesis
          proof (cases r4)
            case (Inl err)
            then have rr: "r = Inl err" using assms step r3ok k4 by auto
            have "failures_last rops r" using f4 unfolding Inl rr by (rule fl_Inl_retype)
            then have "failures_last ([s1, s2, (CGet p \<lparr>go_Recursive = True, go_Sort = False\<rparr>, g)] @ rops) r"
              using ok3 by (simp only: fl_append_ok)
            then show ?thesis
              using shape rr cg
              by (intro exI[of _ c]
                    exI[of _ "[s1, s2, (CGet p \<lparr>go_Recursive = True, go_Sort = False\<rparr>, g)] @ rops"])
                 simp
          next
            case (Inr u)
            then obtain d where rd: "r = Inr d" using assms step r3ok k4 by auto
            have okr: "all_ok rops" using f4 Inr by (auto dest: fl_Inr_all_ok)
            then have "all_ok ([s1, s2, (CGet p \<lparr>go_Recursive = True, go_Sort = False\<rparr>, g)] @ rops)"
              using ok3 by (simp only: all_ok_simps) simp
            then have fl: "failures_last ([s1, s2, (CGet p \<lparr>go_Recursive = True, go_Sort = False\<rparr>, g)] @ rops) r"
              by (rule fl_all_ok)
            have inner: "\<exists>s1' s2' resp' A' rops'.
                [s1, s2, (CGet p \<lparr>go_Recursive = True, go_Sort = False\<rparr>, g)] @ rops
                  = [s1', s2', (CGet p \<lparr>go_Recursive = True, go_Sort = False\<rparr>, Inr resp')] @ rops'
              \<and> lookup_nodes e (nNodes resp') [] = Inr A'
              \<and> all_ok rops'
              \<and> map fst rops' =
                  map (delete_call p) (filter (\<lambda>h. h \<notin> set (oHosts dopts)) (mapRange e (sliceToMap A')))
                @ map (write_call p) (filter (\<lambda>h. h \<notin> set A') (mapRange e (sliceToMap (oHosts dopts))))"
              using A okr m4 Inr gok
              by (intro exI[of _ s1] exI[of _ s2] exI[of _ resp] exI[of _ A] exI[of _ rops]) simp
            show ?thesis
              using shape fl inner cg
              by (intro exI[of _ c]
                    exI[of _ "[s1, s2, (CGet p \<lparr>go_Recursive = True, go_Sort = False\<rparr>, g)] @ rops"])
                 simp
          qed
        qed
      qed
    qed
  qed
qed

lemma refreshExpiration_log:
  assumes "refreshExpiration (logged e) p dopts (w, L) = (r, (w', L'))"
  shows "\<exists>c ops. L' = L @ c # ops \<and> is_get c \<and> failures_last ops r
     \<and> (\<forall>d. r = Inr d \<longrightarrow> (\<exists>s1 s2 s3 resp aops.
           ops = [s1, s2, s3, (CGet (acmePath e) \<lparr>go_Recursive = True, go_Sort = True\<rparr>, Inr resp)] @ aops
         \<and> acme_refresh_log (duration e)
              (filter (\<lambda>k. Contains k (Join (Split (oFqdn dopts) CHR ''.'') ''/''))
                 (nodesToStringSlice (nNodes resp))) aops))"
proof -
  obtain r1 w1 L1 where t: "setTokenOrigin (logged e) dopts True (w, L) = (r1, (w1, L1))"
    by (metis prod.exhaust)
  from setTokenOrigin_log[OF t] obtain c s1 where
    l1: "L1 = L @ [c, s1]" and c1: "case snd s1 of Inl err \<Rightarrow> r1 = Inl err | Inr _ \<Rightarrow> r1 = Inr ()"
    and cg: "is_get c"
    by (force simp: is_get_def)
  show ?thesis
  proof (cases "snd s1")
    case (Inl err)
    then have "r = Inl err" "L' = L1" using assms t c1 by (auto simp: refreshExpiration_def)
    then show ?thesis using l1 Inl cg by (cases s1) auto
  next
    case s1ok: (Inr n1)
    then have r1: "r1 = Inr ()" using c1 by simp
    obtain r2 w2 where k2: "kapi_Set e p [] \<lparr>so_TTL = duration e, so_Dir = True,
        so_PrevExist = PrevExist\<rparr> w1 = (r2, w2)"
      by (metis prod.exhaust)
    define s2 where "s2 = (CSet p [] \<lparr>so_TTL = duration e, so_Dir = True, so_PrevExist = PrevExist\<rparr>, r2)"
    show ?thesis
    proof (cases r2)
      case (Inl err)
      then have "r = Inl err" "L' = L1 @ [s2]"
        using assms t r1 k2 by (auto simp: refreshExpiration_def s2_def)
      then show ?thesis using l1 s1ok Inl cg by (cases s1) (auto simp: s2_def)
    next
      case r2ok: (Inr resp2)
      obtain r3 w3 L3 where k3: "lookupHosts (logged e) p (w2, L1 @ [s2]) = (r3, (w3, L3))"
        by (metis prod.exhaust)
      from lookupHosts_log[OF k3] obtain g where
        l3: "L3 = L1 @ [s2] @ [(CGet p \<lparr>go_Recursive = True, go_Sort = False\<rparr>, g)]"
        and c3: "case g of Inl err \<Rightarrow> r3 = Inl err | Inr resp \<Rightarrow> r3 = lookup_nodes e (nNodes resp) []"
        by auto
      define s3 where "s3 = (CGet p \<lparr>go_Recursive = True, go_Sort = False\<rparr>, g)"
      have step: "refreshExpiration (logged e) p dopts (w, L) =
        (case r3 of Inl err \<Rightarrow> (Inl err, (w3, L3))
         | Inr curHosts \<Rightarrow>
            (case kapi_Get (logged e) (acmePath e) \<lparr>go_Recursive = True, go_Sort = True\<rparr> (w3, L3) of
               (Inl err, w4) \<Rightarrow> (Inl err, w4)
             | (Inr getResp, w4) \<Rightarrow>
                 (case acme_loop (logged e) dopts (nodesToStringSlice (nNodes getResp)) w4 of
                    (Inl err, w5) \<Rightarrow> (Inl err, w5)
                  | (Inr _, w5) \<Rightarrow>
                      (Inr \<lparr>Fqdn = oFqdn dopts, Hosts = curHosts, Text = [],
                            Expiration = nExpiration resp2\<rparr>, w5))))"
        using t r1 k2 r2ok k3 by (simp add: refreshExpiration_def s2_def split: sum.splits)
      show ?thesis
      proof (cases r3)
        case (Inl err)
        then have rr: "r = Inl err" "L' = L3" using assms step by auto
        have "failures_last [s3] r" using c3 Inl rr by (cases g) (auto simp: s3_def)
        then show ?thesis using rr l1 l3 s1ok r2ok cg by (cases s1) (auto simp: s2_def s3_def)
      next
        case r3ok: (Inr A)
        then have gok: "\<not> failed s3" using c3 by (cases g) (auto simp: s3_def)
        obtain g4 w4 where k4: "kapi_Get e (acmePath e) \<lparr>go_Recursive = True, go_Sort = True\<rparr> w3 = (g4, w4)"
          by (metis prod.exhaust)
        define s4 where "s4 = (CGet (acmePath e) \<lparr>go_Recursive = True, go_Sort = True\<rparr>, g4)"
        have ok3: "all_ok [s1, s2, s3]" using s1ok r2ok gok by (cases s1) (simp add: s2_def)
        show ?thesis
        proof (cases g4)
          case (Inl err)
          then have rr: "r = Inl err" "L' = L3 @ [s4]"
            using assms step r3ok k4 by (auto simp: s4_def)
          have "L' = L @ c # ([s1, s2, s3] @ [s4])" using rr l3 l1 by (simp add: s3_def)
          moreover have "failures_last ([s1, s2, s3] @ [s4]) r"
            using ok3 rr Inl by (simp only: fl_append_ok) (simp add: s4_def)
          ultimately show ?thesis using rr cg
            by (intro exI[of _ c] exI[of _ "[s1, s2, s3] @ [s4]"]) simp
        next
          case g4ok: (Inr resp)
          obtain r5 w5 L5 where k5: "acme_loop (logged e) dopts (nodesToStringSlice (nNodes resp))
              (w4, L3 @ [s4]) = (r5, (w5, L5))"
            by (metis prod.exhaust)
          from acme_loop_log[OF k5] obtain aops where
            l5: "L5 = (L3 @ [s4]) @ aops" and f5: "failures_last aops r5"
            and m5: "r5 = Inr () \<longrightarrow> acme_refresh_log (duration e)
              (filter (\<lambda>k. Contains k (Join (Split (oFqdn dopts) CHR ''.'') ''/''))
                 (nodesToStringSlice (nNodes resp))) aops"
            by blast
          have ok4: "all_ok [s1, s2, s3, s4]" using ok3 g4ok by (simp add: s4_def)
          have res: "(r, (w', L')) = (case r5 of Inl err \<Rightarrow> (Inl err, (w5, L5))
              | Inr _ \<Rightarrow> (Inr \<lparr>Fqdn = oFqdn dopts, Hosts = A, Text = [],
                            Expiration = nExpiration resp2\<rparr>, (w5, L5)))"
            using assms step r3ok k4 g4ok k5 by (simp add: s4_def split: sum.splits)
          have shape: "L' = L @ c # ([s1, s2, s3, s4] @ aops)"
            using res l5 l3 l1 by (auto simp: s3_def split: sum.splits)
          show ?thesis
          proof (cases r5)
            case (Inl err)
            then have rr: "r = Inl err" using res by simp
            have "failures_last aops r" using f5 unfolding Inl rr by (rule fl_Inl_retype)
            then have "failures_last ([s1, s2, s3, s4] @ aops) r"
              using ok4 by (simp only: fl_append_ok)
            then show ?thesis using shape rr cg
              by (intro exI[of _ c] exI[of _ "[s1, s2, s3, s4] @ aops"]) simp
          next
            case (Inr u)
            then obtain d where rd: "r = Inr d" using res by simp
            have "all_ok aops" using f5 Inr by (auto dest: fl_Inr_all_ok)
            then have "all_ok ([s1, s2, s3, s4] @ aops)" using ok4 by (simp only: all_ok_simps) simp
            then have fl: "failures_last ([s1, s2, s3, s4] @ aops) r" by (rule fl_all_ok)
            have inner: "\<exists>s1' s2' s3' resp' aops'.
                [s1, s2, s3, s4] @ aops
                  = [s1', s2', s3', (CGet (acmePath e) \<lparr>go_Recursive = True, go_Sort = True\<rparr>, Inr resp')] @ aops'
              \<and> acme_refresh_log (duration e)
                   (filter (\<lambda>k. Contains k (Join (Split (oFqdn dopts) CHR ''.'') ''/''))
                      (nodesToStringSlice (nNodes resp'))) aops'"
              using m5 Inr g4ok
              by (intro exI[of _ s1] exI[of _ s2] exI[of _ s3] exI[of _ resp] exI[of _ aops])
                 (simp add: s4_def)
            show ?thesis
              using shape fl inner cg
              by (intro exI[of _ c] exI[of _ "[s1, s2, s3, s4] @ aops"]) simp
          qed
        qed
      qed
    qed
  qed
qed

lemma slug_loop_log:
  "slug_loop (logged e) n p dopts (w, L) = (p', dopts', (w', L')) \<Longrightarrow>
   \<exists>ops. L' = L @ ops \<and> length ops \<le> n \<and> list_all is_get ops \<and> (0 < n \<longrightarrow> ops \<noteq> [])"
proof (induction n arbitrary: p w L)
  case 0
  then show ?case by simp
next
  case (Suc n)
  obtain slug w1 where g: "generateSlug e w = (slug, w1)" by (metis prod.exhaust)
  then have g': "generateSlug (logged e) (w, L) = (slug, (w1, L))" by (simp add: generateSlug_def)
  let ?p = "path e (slug @ ''.'' @ rootDomain e)"
  obtain x w2 where k: "kapi_Get e ?p nilGetOptions w1 = (x, w2)" by (metis prod.exhaust)
  let ?c = "(CGet ?p nilGetOptions, x)"
  have cg: "is_get ?c" by (simp add: is_get_def)
  show ?case
  proof (cases "\<exists>err. x = Inl err \<and> IsKeyNotFound err")
    case True
    then have "L' = L @ [?c]" using Suc.prems g' k by (auto simp: Let_def)
    then show ?thesis using cg by simp
  next
    case False
    then have "slug_loop (logged e) n ?p dopts (w2, L @ [?c]) = (p', dopts', (w', L'))"
      using Suc.prems g' k by (auto simp: Let_def split: sum.splits)
    from Suc.IH[OF this] obtain ops where "L' = (L @ [?c]) @ ops" "length ops \<le> n" "list_all is_get ops"
      by blast
    then show ?thesis using cg by (intro exI[of _ "?c # ops"]) simp
  qed
qed

lemma Get_log:
  "Get (logged e) dopts (w, L) = (r, d', (w', L')) \<Longrightarrow> \<exists>c. L' = L @ [c] \<and> failures_last [c] r"
  by (auto simp: Get_def split: prod.split_asm sum.split_asm)

lemma GetText_log:
  "GetText (logged e) dopts (w, L) = (r, d', (w', L')) \<Longrightarrow> \<exists>c. L' = L @ [c] \<and> failures_last [c] r"
  by (auto simp: GetText_def split: prod.split_asm sum.split_asm)

lemma GetTokenOrigin_log:
  "GetTokenOrigin (logged e) fqdn (w, L) = (r, (w', L')) \<Longrightarrow> \<exists>c. L' = L @ [c] \<and> failures_last [c] r"
  by (auto simp: GetTokenOrigin_def split: prod.split_asm sum.split_asm)

lemma Delete_log:
  "Delete (logged e) dopts (w, L) = (r, d', (w', L')) \<Longrightarrow> \<exists>c. L' = L @ [c] \<and> failures_last [c] r"
  by (auto simp: Delete_def split: prod.split_asm sum.split_asm)

lemma DeleteText_log:
  "DeleteText (logged e) dopts (w, L) = (r, d', (w', L')) \<Longrightarrow> \<exists>c. L' = L @ [c] \<and> failures_last [c] r"
  by (auto simp: DeleteText_def split: prod.split_asm sum.split_asm)

lemma setText_log:
  "setText (logged e) p dopts exist (w, L) = (r, (w', L')) \<Longrightarrow> \<exists>c. L' = L @ [c] \<and> failures_last [c] r"
  by (auto simp: setText_def split: prod.split_asm sum.split_asm)

lemma CreateText_log:
  "CreateText (logged e) dopts (w, L) = (r, d', (w', L')) \<Longrightarrow>
   \<exists>c s. L' = L @ [c, s] \<and> is_get c \<and> failures_last [s] r"
  by (auto simp: CreateText_def Let_def is_get_def split: prod.split_asm dest!: setText_log)

lemma UpdateText_log:
  "UpdateText (logged e) dopts (w, L) = (r, d', (w', L')) \<Longrightarrow>
   \<exists>c s. L' = L @ [c, s] \<and> is_get c \<and> failures_last [s] r"
  by (auto simp: UpdateText_def Let_def is_get_def split: prod.split_asm dest!: setText_log)

lemma Update_log:
  assumes "Update (logged e) dopts (w, L) = (r, d', (w', L'))"
  shows "\<exists>c1 c2 ops. L' = L @ c1 # c2 # ops \<and> is_get c1 \<and> is_get c2 \<and> failures_last ops r"
proof -
  obtain x w1 where k: "kapi_Get e (path e (oFqdn dopts)) nilGetOptions w = (x, w1)"
    by (metis prod.exhaust)
  let ?c = "(CGet (path e (oFqdn dopts)) nilGetOptions, x)"
  have "set' (logged e) (path e (oFqdn dopts)) dopts (case x of Inr n \<Rightarrow> nDir n | Inl _ \<Rightarrow> False)
          (w1, L @ [?c]) = (r, (w', L'))"
    using assms k by (auto simp: Update_def Let_def split: prod.split_asm)
  from set'_log[OF this] obtain c2 ops where "L' = (L @ [?c]) @ c2 # ops" "is_get c2" "failures_last ops r"
    by blast
  then show ?thesis by (intro exI[of _ ?c] exI[of _ c2] exI[of _ ops]) (simp add: is_get_def)
qed

lemma Renew_log:
  assumes "Renew (logged e) dopts (w, L) = (r, d', (w', L'))"
  shows "refreshExpiration (logged e) (path e (oFqdn dopts)) dopts (w, L) = (r, (w', L'))"
  using assms by (auto simp: Renew_def split: prod.split_asm)

lemma Create_log:
  assumes "Create (logged e) dopts (w, L) = (r, d', (w', L'))"
  shows "\<exists>probes c ops. L' = L @ probes @ c # ops \<and> probes \<noteq> [] \<and> length probes \<le> maxSlugHashTimes
     \<and> list_all is_get probes \<and> is_get c \<and> failures_last ops r"
proof -
  obtain p1 d1 w1 L1 where s: "slug_loop (logged e) maxSlugHashTimes [] dopts (w, L) = (p1, d1, (w1, L1))"
    by (metis prod.exhaust)
  from slug_loop_log[OF s] obtain probes where
    pr: "L1 = L @ probes" "length probes \<le> maxSlugHashTimes" "list_all is_get probes" "probes \<noteq> []"
    by (auto simp: maxSlugHashTimes_def)
  obtain r2 w2 L2 where t: "set' (logged e) p1 d1 False (w1, L1) = (r2, (w2, L2))"
    by (metis prod.exhaust)
  from set'_log[OF t] obtain c ops where
    o: "L2 = L1 @ c # ops" "is_get c" "failures_last ops r2"
    by blast
  show ?thesis
  proof (cases r2)
    case (Inl err)
    then have rr: "r = Inl err" "L' = L2" using assms s t by (auto simp: Create_def)
    have "failures_last ops r" using o(3) unfolding Inl rr by (rule fl_Inl_retype)
    then show ?thesis using rr pr o
      by (intro exI[of _ probes] exI[of _ c] exI[of _ ops]) simp
  next
    case (Inr d)
    then have "Get (logged e) d1 (w2, L2) = (r, d', (w', L'))" using assms s t by (auto simp: Create_def)
    from Get_log[OF this] obtain g where g: "L' = L2 @ [g]" "failures_last [g] r" by blast
    have "all_ok ops" using o(3) Inr by (auto dest: fl_Inr_all_ok)
    then have "failures_last (ops @ [g]) r" using g(2) by (simp only: fl_append_ok)
    then show ?thesis using g pr o
      by (intro exI[of _ probes] exI[of _ c] exI[of _ "ops @ [g]"]) simp
  qed
qed

lemmas verb_defs = Update_def set'_def setTokenOrigin_def lookupHosts_def reconcile_def sliceToMap_def
  convertToMap_def map_index_def Renew_def refreshExpiration_def acmePath_def Get_def
  x1_opts_def update_opts_def text_json_def acme_world_def

section \<open>Propagation of storage failures\<close>

text \<open>
  C4, as stated, fails: storage failures are absorbed outside the slug loop of \<open>Create\<close>.
  \<open>Update\<close> of the fresh name \<open>x1.lb.example.com\<close> on the empty store succeeds although
  its first two storage operations fail with key-not-found: the existence probe of
  \<open>Update\<close> (a missing registration is created) and the read of the token in
  \<open>setTokenOrigin\<close> (a missing token is generated).
\<close>

theorem Update_absorbs_key_not_found:
  "fst (Update (logged mem_backend) x1_opts (mem_empty, []))
     = Inr \<lparr>Fqdn = ''x1.lb.example.com'', Hosts = [''1.2.3.4''], Text = [], Expiration = Some 865000\<rparr>
   \<and> take 2 (snd (snd (snd (Update (logged mem_backend) x1_opts (mem_empty, [])))))
     = [(CGet ''/rdns/com/example/lb/x1'' nilGetOptions, Inl (EtcdError 100)),
        (CGet ''/token_origin/x1_lb_example_com'' nilGetOptions, Inl (EtcdError 100))]"
  by (simp add: verb_defs mem_defs model_defs Let_def)

text \<open>
  C4, amended: in every verb, each storage operation after the leading existence probes
  that fails is the last operation of the run, and its error is what the verb returns.
  The leading probes, all of them reads, are: the read of the existing token in
  \<open>setTokenOrigin\<close> (first operation of \<open>setTokenOrigin\<close> and \<open>Renew\<close>), the existence
  read of \<open>CreateText\<close> and \<open>UpdateText\<close>, the existence read of \<open>Update\<close> followed by
  the token read, and in \<open>Create\<close> between one and \<open>maxSlugHashTimes\<close> slug probes
  followed by the token read. \<open>Get\<close>, \<open>GetText\<close>, \<open>Delete\<close>, \<open>DeleteText\<close> and
  \<open>GetTokenOrigin\<close> have no probe. In particular every failed write or delete is
  returned, the write of the token in \<open>setTokenOrigin\<close> included.
\<close>

theorem storage_failures_are_returned:
  "(Update (logged e) dopts (w, []) = (r1, d1, (w1, L1)) \<longrightarrow> returned_after 2 L1 r1)
   \<and> (setTokenOrigin (logged e) dopts exist (w, []) = (r2, (w2, L2)) \<longrightarrow> returned_after 1 L2 r2)
   \<and> (Create (logged e) dopts (w, []) = (r3, d3, (w3, L3))
        \<longrightarrow> (\<exists>k. 1 \<le> k \<and> k \<le> maxSlugHashTimes \<and> returned_after (k + 1) L3 r3))
   \<and> (Renew (logged e) dopts (w, []) = (r4, d4, (w4, L4)) \<longrightarrow> returned_after 1 L4 r4)
   \<and> (CreateText (logged e) dopts (w, []) = (r5, d5, (w5, L5)) \<longrightarrow> returned_after 1 L5 r5)
   \<and> (UpdateText (logged e) dopts (w, []) = (r6, d6, (w6, L6)) \<longrightarrow> returned_after 1 L6 r6)
   \<and> (Get (logged e) dopts (w, []) = (r7, d7, (w7, L7)) \<longrightarrow> returned_after 0 L7 r7)
   \<and> (GetText (logged e) dopts (w, []) = (r8, d8, (w8, L8)) \<longrightarrow> returned_after 0 L8 r8)
   \<and> (Delete (logged e) dopts (w, []) = (r9, d9, (w9, L9)) \<longrightarrow> returned_after 0 L9 r9)
   \<and> (DeleteText (logged e) dopts (w, []) = (r10, d10, (w10, L10)) \<longrightarrow> returned_after 0 L10 r10)
   \<and> (GetTokenOrigin (logged e) fqdn (w, []) = (r11, (w11, L11)) \<longrightarrow> returned_after 0 L11 r11)"
proof (intro conjI impI)
  assume "Update (logged e) dopts (w, []) = (r1, d1, (w1, L1))"
  from Update_log[OF this] show "returned_after 2 L1 r1"
    by (auto simp: returned_after_def)
next
  assume "setTokenOrigin (logged e) dopts exist (w, []) = (r2, (w2, L2))"
  from setTokenOrigin_log[OF this] show "returned_after 1 L2 r2"
    by (auto simp: returned_after_def is_get_def intro: fl_sum_case)
next
  assume "Create (logged e) dopts (w, []) = (r3, d3, (w3, L3))"
  from Create_log[OF this] obtain probes c ops where
    o: "L3 = probes @ c # ops" "probes \<noteq> []" "length probes \<le> maxSlugHashTimes"
       "list_all is_get probes" "is_get c" "failures_last ops r3"
    by auto
  have "returned_after (length probes + 1) L3 r3"
    using o by (simp add: returned_after_def)
  moreover have "1 \<le> length probes" using o(2) by (cases probes) auto
  ultimately show "\<exists>k. 1 \<le> k \<and> k \<le> maxSlugHashTimes \<and> returned_after (k + 1) L3 r3"
    using o(3) by blast
next
  assume "Renew (logged e) dopts (w, []) = (r4, d4, (w4, L4))"
  from refreshExpiration_log[OF Renew_log[OF this]] show "returned_after 1 L4 r4"
    by (auto simp: returned_after_def)
next
  assume "CreateText (logged e) dopts (w, []) = (r5, d5, (w5, L5))"
  from CreateText_log[OF this] show "returned_after 1 L5 r5"
    by (auto simp: returned_after_def)
next
  assume "UpdateText (logged e) dopts (w, []) = (r6, d6, (w6, L6))"
  from UpdateText_log[OF this] show "returned_after 1 L6 r6"
    by (auto simp: returned_after_def)
next
  assume "Get (logged e) dopts (w, []) = (r7, d7, (w7, L7))"
  from Get_log[OF this] show "returned_after 0 L7 r7"
    by (auto simp: returned_after_def)
next
  assume "GetText (logged e) dopts (w, []) = (r8, d8, (w8, L8))"
  from GetText_log[OF this] show "returned_after 0 L8 r8"
    by (auto simp: returned_after_def)
next
  assume "Delete (logged e) dopts (w, []) = (r9, d9, (w9, L9))"
  from Delete_log[OF this] show "returned_after 0 L9 r9"
    by (auto simp: returned_after_def)
next
  assume "DeleteText (logged e) dopts (w, []) = (r10, d10, (w10, L10))"
  from DeleteText_log[OF this] show "returned_after 0 L10 r10"
    by (auto simp: returned_after_def)
next
  assume "GetTokenOrigin (logged e) fqdn (w, []) = (r11, (w11, L11))"
  from GetTokenOrigin_log[OF this] show "returned_after 0 L11 r11"
    by (auto simp: returned_after_def)
qed

theorem storage_failures_are_returned_witness:
  "fst fault_run = Inl TransportError
   \<and> map failed (snd (snd (snd fault_run))) = [True, True, False, True]
   \<and> returned_after 2 (snd (snd (snd fault_run))) (fst fault_run)"
proof -
  have c: "Update (logged mem_backend) x1_opts
     (mem_empty\<lparr>mw_faults := [None, None, None, Some TransportError]\<rparr>, [])
     = (fst fault_run, fst (snd fault_run), fst (snd (snd fault_run)), snd (snd (snd fault_run)))"
    by (simp add: fault_run_def)
  have r: "returned_after 2 (snd (snd (snd fault_run))) (fst fault_run)"
    using storage_failures_are_returned[THEN conjunct1, rule_format, OF c] .
  have e: "fst fault_run = Inl TransportError"
    "map failed (snd (snd (snd fault_run))) = [True, True, False, True]"
    by (simp_all add: fault_run_def verb_defs mem_defs model_defs Let_def)
  show ?thesis using r e by simp
qed

section \<open>Host reconciliation\<close>

text \<open>
  C5: when \<open>set\<close> succeeds, its fourth operation is the recursive read that gives the
  current hosts \<open>A\<close>; with \<open>B\<close> the hosts of the request, the operations after it are one
  delete for each host of \<open>A - B\<close> followed by one write for each host of \<open>B - A\<close>
  (each host once, none for a host of both sets, all successful), and removing the
  deleted hosts from \<open>A\<close> and adding the written ones gives exactly \<open>B\<close>. The order in
  which \<open>range\<close> visits a map is any permutation of its keys.
\<close>

theorem set_reconciles_hosts:
  assumes perm: "\<And>ks. mset (mapRange e ks) = mset ks"
    and run: "set' (logged e) p dopts exist (w, []) = (Inr d, (w', L))"
  shows "\<exists>resp A dels adds.
       L ! 3 = (CGet p \<lparr>go_Recursive = True, go_Sort = False\<rparr>, Inr resp)
     \<and> lookup_nodes e (nNodes resp) [] = Inr A
     \<and> all_ok (drop 4 L)
     \<and> map fst (drop 4 L) = map (delete_call p) dels @ map (write_call p) adds
     \<and> distinct dels \<and> set dels = set A - set (oHosts dopts)
     \<and> distinct adds \<and> set adds = set (oHosts dopts) - set A
     \<and> (set A - set dels) \<union> set adds = set (oHosts dopts)"
proof -
  from set'_log[OF run] obtain c s1 s2 resp A rops where
    L: "L = c # [s1, s2, (CGet p \<lparr>go_Recursive = True, go_Sort = False\<rparr>, Inr resp)] @ rops"
    and A: "lookup_nodes e (nNodes resp) [] = Inr A"
    and ok: "all_ok rops"
    and m: "map fst rops =
             map (delete_call p) (filter (\<lambda>h. h \<notin> set (oHosts dopts)) (mapRange e (sliceToMap A)))
           @ map (write_call p) (filter (\<lambda>h. h \<notin> set A) (mapRange e (sliceToMap (oHosts dopts))))"
    by auto
  define dels where "dels = filter (\<lambda>h. h \<notin> set (oHosts dopts)) (mapRange e (sliceToMap A))"
  define adds where "adds = filter (\<lambda>h. h \<notin> set A) (mapRange e (sliceToMap (oHosts dopts)))"
  have rA: "distinct (mapRange e (sliceToMap A))" "set (mapRange e (sliceToMap A)) = set A"
    using perm[of "sliceToMap A"] mset_eq_imp_distinct_iff[of "mapRange e (sliceToMap A)" "sliceToMap A"]
      mset_eq_setD[of "mapRange e (sliceToMap A)" "sliceToMap A"]
    by (simp_all add: sliceToMap_def)
  have rB: "distinct (mapRange e (sliceToMap (oHosts dopts)))"
    "set (mapRange e (sliceToMap (oHosts dopts))) = set (oHosts dopts)"
    using perm[of "sliceToMap (oHosts dopts)"]
      mset_eq_imp_distinct_iff[of "mapRange e (sliceToMap (oHosts dopts))" "sliceToMap (oHosts dopts)"]
      mset_eq_setD[of "mapRange e (sliceToMap (oHosts dopts))" "sliceToMap (oHosts dopts)"]
    by (simp_all add: sliceToMap_def)
  have d: "distinct dels" "set dels = set A - set (oHosts dopts)"
    using rA by (auto simp: dels_def)
  have a: "distinct adds" "set adds = set (oHosts dopts) - set A"
    using rB by (auto simp: adds_def)
  have u: "(set A - set dels) \<union> set adds = set (oHosts dopts)" using d a by auto
  have l3: "L ! 3 = (CGet p \<lparr>go_Recursive = True, go_Sort = False\<rparr>, Inr resp)"
    and d4: "drop 4 L = rops"
    using L by (simp_all add: numeral_eq_Suc)
  show ?thesis
    using l3 A ok m d a u unfolding d4 dels_def[symmetric] adds_def[symmetric]
    by (intro exI[of _ resp] exI[of _ A] exI[of _ dels] exI[of _ adds]) simp
qed

theorem set_reconciles_hosts_witness:
  "(\<forall>ks. mset (mapRange mem_backend ks) = mset ks)
   \<and> fst update_run = Inr \<lparr>Fqdn = ''aaaaaa.lb.example.com'', Hosts = [''5.6.7.8''], Text = [],
                           Expiration = Some 865000\<rparr>
   \<and> map fst (drop 4 (snd (snd update_run)))
       = [delete_call ''/rdns/com/example/lb/aaaaaa'' ''1.2.3.4'',
          write_call ''/rdns/com/example/lb/aaaaaa'' ''5.6.7.8'']
   \<and> (\<exists>resp A dels adds.
         snd (snd update_run) ! 3
           = (CGet ''/rdns/com/example/lb/aaaaaa'' \<lparr>go_Recursive = True, go_Sort = False\<rparr>, Inr resp)
       \<and> lookup_nodes mem_backend (nNodes resp) [] = Inr A
       \<and> all_ok (drop 4 (snd (snd update_run)))
       \<and> map fst (drop 4 (snd (snd update_run)))
           = map (delete_call ''/rdns/com/example/lb/aaaaaa'') dels
             @ map (write_call ''/rdns/com/example/lb/aaaaaa'') adds
       \<and> distinct dels \<and> set dels = set A - set (oHosts update_opts)
       \<and> distinct adds \<and> set adds = set (oHosts update_opts) - set A
       \<and> (set A - set dels) \<union> set adds = set (oHosts update_opts))"
proof -
  have perm: "\<And>ks. mset (mapRange mem_backend ks) = mset ks" by (simp add: mem_backend_def)
  have e: "fst update_run = Inr \<lparr>Fqdn = ''aaaaaa.lb.example.com'', Hosts = [''5.6.7.8''], Text = [],
                           Expiration = Some 865000\<rparr>"
    by (simp add: update_run_def verb_defs mem_defs model_defs Let_def)
  have l: "map fst (drop 4 (snd (snd update_run)))
       = [delete_call ''/rdns/com/example/lb/aaaaaa'' ''1.2.3.4'',
          write_call ''/rdns/com/example/lb/aaaaaa'' ''5.6.7.8'']"
    by (simp add: update_run_def verb_defs mem_defs model_defs Let_def delete_call_def write_call_def)
  have run: "set' (logged mem_backend) ''/rdns/com/example/lb/aaaaaa'' update_opts True
     (registered_world (Some 500) (Some 500), [])
     = (Inr \<lparr>Fqdn = ''aaaaaa.lb.example.com'', Hosts = [''5.6.7.8''], Text = [],
                           Expiration = Some 865000\<rparr>, (fst (snd update_run), snd (snd update_run)))"
    using e by (simp add: update_run_def prod_eq_iff)
  show ?thesis
    using set_reconciles_hosts[OF perm run] perm e l by simp
qed

section \<open>Renewal of ACME entries\<close>

text \<open>
  C7: when \<open>Renew\<close> succeeds, its fifth operation is the recursive read of the ACME
  namespace, and the operations after it are, for each listed key that contains the
  forward-label path of the domain, in order, a read of the key and a write of the value
  just read with the backend's TTL and the precondition that the key exists. Whether
  \<open>Renew\<close> succeeds or not, an operation on an ACME entry that fails is the last
  operation of the run and \<open>Renew\<close> returns its error.
\<close>

theorem Renew_refreshes_acme_entries:
  assumes "Renew (logged e) dopts (w, []) = (r, dopts', (w', L))"
  shows "failures_last (drop 5 L) r
     \<and> (\<forall>d. r = Inr d \<longrightarrow> (\<exists>resp.
           L ! 4 = (CGet (prePath e @ ''/_txt/_acme-challenge'') \<lparr>go_Recursive = True, go_Sort = True\<rparr>, Inr resp)
         \<and> acme_refresh_log (duration e)
              (filter (\<lambda>k. Contains k (Join (Split (oFqdn dopts) CHR ''.'') ''/''))
                 (nodesToStringSlice (nNodes resp)))
              (drop 5 L)))"
proof -
  from refreshExpiration_log[OF Renew_log[OF assms]] obtain c ops where
    L: "L = c # ops" and f: "failures_last ops r"
    and s: "\<forall>d. r = Inr d \<longrightarrow> (\<exists>s1 s2 s3 resp aops.
           ops = [s1, s2, s3, (CGet (acmePath e) \<lparr>go_Recursive = True, go_Sort = True\<rparr>, Inr resp)] @ aops
         \<and> acme_refresh_log (duration e)
              (filter (\<lambda>k. Contains k (Join (Split (oFqdn dopts) CHR ''.'') ''/''))
                 (nodesToStringSlice (nNodes resp))) aops)"
    by auto
  have "drop 5 L = drop 4 ops" using L by (simp add: numeral_eq_Suc)
  then have 1: "failures_last (drop 5 L) r" using fl_drop[OF f, of 4] by simp
  have 2: "\<exists>resp.
           L ! 4 = (CGet (prePath e @ ''/_txt/_acme-challenge'') \<lparr>go_Recursive = True, go_Sort = True\<rparr>, Inr resp)
         \<and> acme_refresh_log (duration e)
              (filter (\<lambda>k. Contains k (Join (Split (oFqdn dopts) CHR ''.'') ''/''))
                 (nodesToStringSlice (nNodes resp)))
              (drop 5 L)" if "r = Inr d" for d
  proof -
    from s that obtain s1 s2 s3 resp aops where
      o: "ops = [s1, s2, s3, (CGet (acmePath e) \<lparr>go_Recursive = True, go_Sort = True\<rparr>, Inr resp)] @ aops"
      and a: "acme_refresh_log (duration e)
              (filter (\<lambda>k. Contains k (Join (Split (oFqdn dopts) CHR ''.'') ''/''))
                 (nodesToStringSlice (nNodes resp))) aops"
      by blast
    have "L ! 4 = (CGet (acmePath e) \<lparr>go_Recursive = True, go_Sort = True\<rparr>, Inr resp)" "drop 5 L = aops"
      using L o by (simp_all add: numeral_eq_Suc)
    then show ?thesis using a by (auto simp: acmePath_def)
  qed
  show ?thesis using 1 2 by blast
qed

theorem Renew_refreshes_acme_entries_witness:
  "fst (renew_run []) = Inr \<lparr>Fqdn = ''aaaaaa.lb.example.com'', Hosts = [''1.2.3.4''], Text = [],
                            Expiration = Some 865000\<rparr>
   \<and> map fst (drop 5 (snd (snd (snd (renew_run [])))))
       = [CGet ''/rdns/_txt/_acme-challenge/aaaaaa/lb/example/com'' nilGetOptions,
          CSet ''/rdns/_txt/_acme-challenge/aaaaaa/lb/example/com'' text_json
            \<lparr>so_TTL = 864000, so_Dir = False, so_PrevExist = PrevExist\<rparr>]
   \<and> acme_refresh_log 864000 [''/rdns/_txt/_acme-challenge/aaaaaa/lb/example/com'']
        (drop 5 (snd (snd (snd (renew_run [])))))
   \<and> fst (renew_run [None, None, None, None, None, None, Some TransportError]) = Inl TransportError
   \<and> failures_last (drop 5 (snd (snd (snd (renew_run [None, None, None, None, None, None, Some TransportError])))))
        (fst (renew_run [None, None, None, None, None, None, Some TransportError]))"
proof -
  let ?f = "[None, None, None, None, None, None, Some TransportError]"
  have c: "Renew (logged mem_backend) renew_opts (acme_world fs, [])
     = (fst (renew_run fs), fst (snd (renew_run fs)), fst (snd (snd (renew_run fs))), snd (snd (snd (renew_run fs))))"
    for fs by (simp add: renew_run_def)
  note t1 = Renew_refreshes_acme_entries[OF c[of "[]"]]
  note t2 = Renew_refreshes_acme_entries[OF c[of ?f]]
  have e1: "fst (renew_run []) = Inr \<lparr>Fqdn = ''aaaaaa.lb.example.com'', Hosts = [''1.2.3.4''], Text = [],
                            Expiration = Some 865000\<rparr>"
    by (simp add: renew_run_def verb_defs mem_defs model_defs Let_def)
  have e2: "map fst (drop 5 (snd (snd (snd (renew_run [])))))
       = [CGet ''/rdns/_txt/_acme-challenge/aaaaaa/lb/example/com'' nilGetOptions,
          CSet ''/rdns/_txt/_acme-challenge/aaaaaa/lb/example/com'' text_json
            \<lparr>so_TTL = 864000, so_Dir = False, so_PrevExist = PrevExist\<rparr>]"
    by (simp add: renew_run_def verb_defs mem_defs model_defs Let_def)
  have e3: "snd (snd (snd (renew_run []))) ! 4
      = (CGet ''/rdns/_txt/_acme-challenge'' \<lparr>go_Recursive = True, go_Sort = True\<rparr>,
         Inr (Node ''/rdns/_txt/_acme-challenge'' True [] None
           [Node ''/rdns/_txt/_acme-challenge/aaaaaa'' True [] None
             [Node ''/rdns/_txt/_acme-challenge/aaaaaa/lb'' True [] None
               [Node ''/rdns/_txt/_acme-challenge/aaaaaa/lb/example'' True [] None
                 [Node ''/rdns/_txt/_acme-challenge/aaaaaa/lb/example/com'' False text_json (Some 500) []]]],
            Node ''/rdns/_txt/_acme-challenge/other'' False text_json (Some 500) []]))"
    by (simp add: renew_run_def verb_defs mem_defs model_defs Let_def)
  have e4: "fst (renew_run ?f) = Inl TransportError"
    by (simp add: renew_run_def verb_defs mem_defs model_defs Let_def)
  have a: "acme_refresh_log 864000 [''/rdns/_txt/_acme-challenge/aaaaaa/lb/example/com'']
        (drop 5 (snd (snd (snd (renew_run [])))))"
    using t1[THEN conjunct2] e1 unfolding e3
    by (simp add: mem_backend_def renew_opts_def)
  show ?thesis using a e1 e2 e4 t2[THEN conjunct1] by simp
qed

section \<open>Renewal without the ACME namespace\<close>

text \<open>
  C10: when the token and the directory of the domain have been refreshed, the hosts
  have been read, and the read of the ACME namespace \<open>prePath + /_txt/_acme-challenge\<close>
  fails (with key-not-found when the directory does not exist, or with any other
  error), \<open>Renew\<close> returns that error, whatever ACME entries the domain has; the world
  it leaves is the one after the failed read, with the refreshed token and directory in
  it. And \<open>Renew\<close> never succeeds otherwise: the fifth operation of a successful
  \<open>Renew\<close> is a successful read of the ACME namespace.
\<close>

theorem Renew_fails_without_acme_namespace:
  "(setTokenOrigin e dopts True w = (Inr u, w1)
     \<and> kapi_Set e (path e (oFqdn dopts)) []
           \<lparr>so_TTL = duration e, so_Dir = True, so_PrevExist = PrevExist\<rparr> w1 = (Inr resp, w2)
     \<and> lookupHosts e (path e (oFqdn dopts)) w2 = (Inr curHosts, w3)
     \<and> kapi_Get e (prePath e @ ''/_txt/_acme-challenge'')
           \<lparr>go_Recursive = True, go_Sort = True\<rparr> w3 = (Inl err, w4)
     \<longrightarrow> Renew e dopts w = (Inl err, dopts, w4))
   \<and> (Renew (logged e) dopts (w, []) = (Inr d, dopts', (w', L))
     \<longrightarrow> (\<exists>listing. L ! 4 = (CGet (prePath e @ ''/_txt/_acme-challenge'')
                                  \<lparr>go_Recursive = True, go_Sort = True\<rparr>, Inr listing)))"
proof (intro conjI impI)
  assume "setTokenOrigin e dopts True w = (Inr u, w1)
     \<and> kapi_Set e (path e (oFqdn dopts)) []
           \<lparr>so_TTL = duration e, so_Dir = True, so_PrevExist = PrevExist\<rparr> w1 = (Inr resp, w2)
     \<and> lookupHosts e (path e (oFqdn dopts)) w2 = (Inr curHosts, w3)
     \<and> kapi_Get e (prePath e @ ''/_txt/_acme-challenge'')
           \<lparr>go_Recursive = True, go_Sort = True\<rparr> w3 = (Inl err, w4)"
  then show "Renew e dopts w = (Inl err, dopts, w4)"
    by (simp add: Renew_def refreshExpiration_def acmePath_def)
next
  assume "Renew (logged e) dopts (w, []) = (Inr d, dopts', (w', L))"
  from refreshExpiration_log[OF Renew_log[OF this]] obtain c s1 s2 s3 listing aops where
    "L = c # [s1, s2, s3, (CGet (acmePath e) \<lparr>go_Recursive = True, go_Sort = True\<rparr>, Inr listing)] @ aops"
    by auto
  then have "L ! 4 = (CGet (acmePath e) \<lparr>go_Recursive = True, go_Sort = True\<rparr>, Inr listing)"
    by (simp add: numeral_eq_Suc)
  then show "\<exists>listing. L ! 4 = (CGet (prePath e @ ''/_txt/_acme-challenge'')
                                  \<lparr>go_Recursive = True, go_Sort = True\<rparr>, Inr listing)"
    by (auto simp: acmePath_def)
qed

theorem Renew_fails_without_acme_namespace_witness:
  "setTokenOrigin mem_backend renew_opts True (registered_world (Some 500) (Some 500))
     = (Inr (), registered_world (Some 865000) (Some 500))
   \<and> fst (lookupHosts mem_backend ''/rdns/com/example/lb/aaaaaa''
            (registered_world (Some 865000) (Some 865000)))
     = Inr [''1.2.3.4'']
   \<and> kapi_Get mem_backend ''/rdns/_txt/_acme-challenge'' \<lparr>go_Recursive = True, go_Sort = True\<rparr>
          (registered_world (Some 865000) (Some 865000))
     = (Inl (EtcdError 100), registered_world (Some 865000) (Some 865000))
   \<and> Renew mem_backend renew_opts (registered_world (Some 500) (Some 500))
     = (Inl (EtcdError 100), renew_opts, registered_world (Some 865000) (Some 865000))
   \<and> fst (renew_run []) = Inr \<lparr>Fqdn = ''aaaaaa.lb.example.com'', Hosts = [''1.2.3.4''], Text = [],
                            Expiration = Some 865000\<rparr>
   \<and> (\<exists>listing. snd (snd (snd (renew_run []))) ! 4
          = (CGet ''/rdns/_txt/_acme-challenge'' \<lparr>go_Recursive = True, go_Sort = True\<rparr>, Inr listing))"
proof -
  have p: "path mem_backend (oFqdn renew_opts) = ''/rdns/com/example/lb/aaaaaa''"
    by (simp add: mem_defs model_defs)
  have pp: "prePath mem_backend @ ''/_txt/_acme-challenge'' = ''/rdns/_txt/_acme-challenge''"
    by (simp add: mem_backend_def)
  have h1: "setTokenOrigin mem_backend renew_opts True (registered_world (Some 500) (Some 500))
     = (Inr (), registered_world (Some 865000) (Some 500))"
    by (simp add: setTokenOrigin_def mem_defs model_defs Let_def)
  have h2: "kapi_Set mem_backend (path mem_backend (oFqdn renew_opts)) []
           \<lparr>so_TTL = duration mem_backend, so_Dir = True, so_PrevExist = PrevExist\<rparr>
           (registered_world (Some 865000) (Some 500))
        = (Inr (Node ''/rdns/com/example/lb/aaaaaa'' True [] (Some 865000)
                  [Node ''/rdns/com/example/lb/aaaaaa/1_2_3_4'' False host_json None []]),
           registered_world (Some 865000) (Some 865000))"
    unfolding p by (simp add: mem_defs model_defs Let_def)
  have h3: "lookupHosts mem_backend (path mem_backend (oFqdn renew_opts))
           (registered_world (Some 865000) (Some 865000))
        = (Inr [''1.2.3.4''], registered_world (Some 865000) (Some 865000))"
    unfolding p by (simp add: lookupHosts_def convertToMap_def map_index_def mem_defs model_defs Let_def)
  have h4: "kapi_Get mem_backend (prePath mem_backend @ ''/_txt/_acme-challenge'')
           \<lparr>go_Recursive = True, go_Sort = True\<rparr> (registered_world (Some 865000) (Some 865000))
        = (Inl (EtcdError 100), registered_world (Some 865000) (Some 865000))"
    by (simp add: mem_defs model_defs Let_def)
  have e1: "fst (renew_run []) = Inr \<lparr>Fqdn = ''aaaaaa.lb.example.com'', Hosts = [''1.2.3.4''], Text = [],
                            Expiration = Some 865000\<rparr>"
    by (simp add: renew_run_def verb_defs mem_defs model_defs Let_def)
  have c: "Renew (logged mem_backend) renew_opts (acme_world [], [])
     = (Inr \<lparr>Fqdn = ''aaaaaa.lb.example.com'', Hosts = [''1.2.3.4''], Text = [],
                            Expiration = Some 865000\<rparr>,
        fst (snd (renew_run [])), fst (snd (snd (renew_run []))), snd (snd (snd (renew_run []))))"
    using e1 by (simp add: renew_run_def prod_eq_iff)
  have a: "Renew mem_backend renew_opts (registered_world (Some 500) (Some 500))
     = (Inl (EtcdError 100), renew_opts, registered_world (Some 865000) (Some 865000))"
    using Renew_fails_without_acme_namespace
      [where e = mem_backend and dopts = renew_opts and w = "registered_world (Some 500) (Some 500)",
       THEN conjunct1, rule_format, OF conjI[OF h1 conjI[OF h2 conjI[OF h3 h4]]]] .
  have b: "\<exists>listing. snd (snd (snd (renew_run []))) ! 4
          = (CGet ''/rdns/_txt/_acme-challenge'' \<lparr>go_Recursive = True, go_Sort = True\<rparr>, Inr listing)"
    using Renew_fails_without_acme_namespace
      [where e = mem_backend and dopts = renew_opts and w = "acme_world []",
       THEN conjunct2, rule_format, OF c] unfolding pp .
  show ?thesis using a b h1 h3 h4 e1 unfolding p pp by simp
qed

end
